theory Spec2Isabelle
  imports Main "HOL-Library.AList" "HOL-Library.Word"
begin

section \<open>The key-value store of store/store.go\<close>

text \<open>
  The store is a process-wide map from keys to nodes. A node may carry an expiration
  instant; a goroutine per volatile key (\<^verbatim>\<open>expire\<close>) deletes the key when its timer
  fires and listens on the node's \<^verbatim>\<open>update\<close> channel for a new instant. Every mutation
  builds a \<^verbatim>\<open>Response\<close>, encodes it, calls \<^verbatim>\<open>notify\<close> and forwards the text to the
  messager channel when one is set.

  The embedding passes the global state explicitly. One call of \<^verbatim>\<open>Set\<close>, \<^verbatim>\<open>Delete\<close>,
  \<^verbatim>\<open>Recovery\<close> or one firing of a timer is one function from state to state; the clock
  reading \<^verbatim>\<open>time.Now()\<close> of that call is the argument \<open>now\<close>. A send on an unbuffered
  channel that no goroutine receives from never returns: the operation's value is then
  \<open>None\<close>.
\<close>

subsection \<open>Instants and durations (package time)\<close>

text \<open>
  A \<^verbatim>\<open>time.Time\<close> is read as the instant it denotes, in nanoseconds since the Unix
  epoch; \<^verbatim>\<open>Equal\<close> compares instants. A \<^verbatim>\<open>time.Duration\<close> is an \<^verbatim>\<open>int64\<close> count of
  nanoseconds, and \<^verbatim>\<open>Sub\<close> saturates at its bounds.
\<close>

type_synonym time = int

type_synonym duration = int

definition Unix :: "int \<Rightarrow> int \<Rightarrow> time" where
  "Unix sec nsec = sec * 1000000000 + nsec"

definition PERMANENT :: time where
  "PERMANENT = Unix 0 0"

definition Second :: duration where
  "Second = 1000000000"

definition minDuration :: duration where
  "minDuration = - (2 ^ 63)"

definition maxDuration :: duration where
  "maxDuration = 2 ^ 63 - 1"

definition Equal :: "time \<Rightarrow> time \<Rightarrow> bool" where
  "Equal t u = (t = u)"

definition Sub :: "time \<Rightarrow> time \<Rightarrow> duration" where
  "Sub t u =
     (if t - u < minDuration then minDuration
      else if maxDuration < t - u then maxDuration
      else t - u)"

subsection \<open>Constants, nodes and responses\<close>

definition ERROR :: int where
  "ERROR = - 1"

definition SET :: int where
  "SET = 0"

definition DELETE :: int where
  "DELETE = 1"

definition GET :: int where
  "GET = 2"

text \<open>
  A channel is known by the number \<^verbatim>\<open>make\<close> gave it; \<open>None\<close> is the nil channel, the
  zero value of the field \<^verbatim>\<open>update\<close>.
\<close>

type_synonym chan = nat

record node =
  Value :: string
  ExpireTime :: time
  update :: "chan option"

record response =
  Action :: int
  Key :: string
  OldValue :: string
  NewValue :: string
  Exist :: bool
  Expiration :: time
  Index :: "64 word"

subsection \<open>What the standard library contributes\<close>

text \<open>
  \<^verbatim>\<open>path.Clean\<close> and \<^verbatim>\<open>encoding/json\<close> are not part of the repository. They are
  parameters of every operation, so each theorem holds whatever they compute. The byte
  strings of \<^verbatim>\<open>encoding/json\<close> have the abstract type \<open>'b\<close>.
  \<^item> \<open>marshal_Response\<close> is \<^verbatim>\<open>json.Marshal\<close> on a \<^verbatim>\<open>Response\<close>.
  \<^item> \<open>marshal_Store\<close> is \<^verbatim>\<open>json.Marshal\<close> on the store. It sees the exported fields
    only: of the store the map, of a node \<^verbatim>\<open>Value\<close> and \<^verbatim>\<open>ExpireTime\<close>.
  \<^item> \<open>unmarshal_Store\<close> reads a snapshot: the members of its \<^verbatim>\<open>nodes\<close> object in the
    order the decoder stores them (key, value, expiration), and the error it reports.
\<close>

datatype error = SerializationError | DeserializationError

record 'b lib =
  path_Clean :: "string \<Rightarrow> string"
  marshal_Response :: "response \<Rightarrow> error + 'b"
  marshal_Store :: "(string \<times> string \<times> time) list \<Rightarrow> error + 'b"
  unmarshal_Store :: "'b \<Rightarrow> (string \<times> string \<times> time) list \<times> error option"

subsection \<open>The state: the store and what runs beside it\<close>

text \<open>
  A running \<^verbatim>\<open>expire\<close> goroutine: its arguments \<^verbatim>\<open>key\<close> and \<^verbatim>\<open>update\<close> and its local
  variable \<^verbatim>\<open>duration\<close>.
\<close>

record task =
  tkey :: string
  tupdate :: chan
  duration :: duration

text \<open>
  \<open>Nodes\<close> and \<open>messager\<close> are the fields of \<^verbatim>\<open>Store\<close>. The map is an association list
  read with \<open>map_of\<close>, since \<^verbatim>\<open>clean\<close> ranges over it. \<open>messager\<close> is \<open>None\<close> for the nil
  pointer, otherwise the texts sent to the channel so far. \<open>notified\<close> lists the calls of
  \<^verbatim>\<open>notify\<close>, \<open>tasks\<close> the running \<^verbatim>\<open>expire\<close> goroutines, and \<open>chans\<close> counts the channels
  made.
\<close>

record 'b world =
  Nodes :: "(string \<times> node) list"
  messager :: "'b list option"
  notified :: "response list"
  tasks :: "task list"
  chans :: nat

definition createStore :: "'b world" where
  "createStore = \<lparr>Nodes = [], messager = None, notified = [], tasks = [], chans = 0\<rparr>"

definition SetMessager :: "'b list option \<Rightarrow> 'b world \<Rightarrow> 'b world" where
  "SetMessager m w = w\<lparr>messager := m\<rparr>"

subsection \<open>The expire goroutine\<close>

text \<open>
  \<^verbatim>\<open>go expire(key, update, expireTime)\<close>: the goroutine computes its first countdown
  from the clock.
\<close>

definition go_expire :: "string \<Rightarrow> chan \<Rightarrow> time \<Rightarrow> time \<Rightarrow> task" where
  "go_expire key upd expireTime now =
     \<lparr>tkey = key, tupdate = upd, duration = Sub expireTime now\<rparr>"

text \<open>
  The branch \<^verbatim>\<open>case updateTime := <-update\<close>: the goroutine returns on the permanent
  instant (\<open>None\<close>) and otherwise recomputes its countdown.
\<close>

definition expire_update :: "task \<Rightarrow> time \<Rightarrow> time \<Rightarrow> task option" where
  "expire_update tk updateTime now =
     (if Equal updateTime PERMANENT then None
      else Some (tk\<lparr>duration := Sub updateTime now\<rparr>))"

text \<open>
  \<^verbatim>\<open>ch <- v\<close> on an unbuffered channel of instants. The goroutine that listens on the
  channel takes the value; a send on the nil channel, or on a channel nobody listens
  on, blocks forever (\<open>None\<close>).
\<close>

fun chan_send :: "chan option \<Rightarrow> time \<Rightarrow> time \<Rightarrow> task list \<Rightarrow> task list option" where
  "chan_send None v now ts = None"
| "chan_send (Some c) v now [] = None"
| "chan_send (Some c) v now (tk # ts) =
     (if tupdate tk = c
      then Some (case expire_update tk v now of None \<Rightarrow> ts | Some tk' \<Rightarrow> tk' # ts)
      else map_option ((#) tk) (chan_send (Some c) v now ts))"

subsection \<open>Notification\<close>

text \<open>
  Modelled from the spec: \<^verbatim>\<open>notify\<close> is defined in another file of the package. The spec
  describes it as a synchronous watch hook invoked with the envelope, its fan-out to
  subscribers out of scope; here a call is recorded and changes nothing else.
\<close>

definition notify :: "response \<Rightarrow> 'b world \<Rightarrow> 'b world" where
  "notify resp w = w\<lparr>notified := notified w @ [resp]\<rparr>"

text \<open>
  \<^verbatim>\<open>if s.messager != nil && err == nil { *s.messager <- string(msg) }\<close>, as a function
  of the encoding's result and the messager.
\<close>

definition send_messager :: "error + 'b \<Rightarrow> 'b list option \<Rightarrow> 'b list option" where
  "send_messager r m =
     (case m of
        None \<Rightarrow> None
      | Some q \<Rightarrow> (case r of Inl err \<Rightarrow> Some q | Inr msg \<Rightarrow> Some (q @ [msg])))"

text \<open>
  The lines that end both branches of \<^verbatim>\<open>Set\<close>, the first branch of \<^verbatim>\<open>Delete\<close> and the
  timer branch of \<^verbatim>\<open>expire\<close>: encode the response, call \<^verbatim>\<open>notify\<close>, send the text to the
  messager, return the encoding.
\<close>

definition publish :: "'b lib \<Rightarrow> response \<Rightarrow> 'b world \<Rightarrow> (error + 'b) \<times> 'b world" where
  "publish L resp w =
     (let r = marshal_Response L resp;
          w1 = notify resp w
      in (r, w1\<lparr>messager := send_messager r (messager w1)\<rparr>))"

subsection \<open>Delete, Set, Get and the timer\<close>

definition Delete ::
  "'b lib \<Rightarrow> string \<Rightarrow> 64 word \<Rightarrow> time \<Rightarrow> 'b world \<Rightarrow> ((error + 'b) \<times> 'b world) option" where
  "Delete L key0 index now w =
     (let key = path_Clean L key0 in
      case map_of (Nodes w) key of
        Some node \<Rightarrow>
          (case (if Equal (ExpireTime node) PERMANENT then Some (tasks w)
                 else chan_send (update node) PERMANENT now (tasks w)) of
             None \<Rightarrow> None
           | Some ts \<Rightarrow>
               Some (publish L
                 \<lparr>Action = DELETE, Key = key, OldValue = Value node, NewValue = [],
                  Exist = True, Expiration = ExpireTime node, Index = index\<rparr>
                 (w\<lparr>tasks := ts, Nodes := AList.delete key (Nodes w)\<rparr>)))
      | None \<Rightarrow>
          Some (marshal_Response L
                 \<lparr>Action = DELETE, Key = key, OldValue = [], NewValue = [],
                  Exist = False, Expiration = Unix 0 0, Index = index\<rparr>, w))"

definition Set ::
  "'b lib \<Rightarrow> string \<Rightarrow> string \<Rightarrow> time \<Rightarrow> 64 word \<Rightarrow> time \<Rightarrow> 'b world
     \<Rightarrow> ((error + 'b) \<times> 'b world) option" where
  "Set L key0 val expireTime index now w =
     (let key = path_Clean L key0;
          isExpire = (\<not> Equal expireTime PERMANENT)
      in if isExpire \<and> Sub expireTime now < 0 then Delete L key index now w
         else
           case map_of (Nodes w) key of
             Some node \<Rightarrow>
               (case (if \<not> Equal (ExpireTime node) PERMANENT
                      then map_option (\<lambda>ts. (update node, w\<lparr>tasks := ts\<rparr>))
                             (chan_send (update node) expireTime now (tasks w))
                      else if isExpire
                      then Some (Some (chans w),
                                 w\<lparr>chans := Suc (chans w),
                                   tasks := tasks w @ [go_expire key (chans w) expireTime now]\<rparr>)
                      else Some (update node, w)) of
                  None \<Rightarrow> None
                | Some (upd, w1) \<Rightarrow>
                    Some (publish L
                      \<lparr>Action = SET, Key = key, OldValue = Value node, NewValue = val,
                       Exist = True, Expiration = expireTime, Index = index\<rparr>
                      (w1\<lparr>Nodes := AList.update key
                           \<lparr>Value = val, ExpireTime = expireTime, update = upd\<rparr> (Nodes w1)\<rparr>)))
           | None \<Rightarrow>
               (let upd = chans w;
                    w1 = w\<lparr>chans := Suc (chans w),
                           Nodes := AList.update key
                             \<lparr>Value = val, ExpireTime = expireTime, update = Some upd\<rparr> (Nodes w)\<rparr>;
                    w2 = (if isExpire
                          then w1\<lparr>tasks := tasks w1 @ [go_expire key upd expireTime now]\<rparr>
                          else w1)
                in Some (publish L
                     \<lparr>Action = SET, Key = key, OldValue = [], NewValue = val,
                      Exist = False, Expiration = expireTime, Index = index\<rparr> w2)))"

text \<open>
  \<^verbatim>\<open>Get\<close> reads the map and assigns nothing; the state it returns is the one it was
  given.
\<close>

definition Get :: "'b lib \<Rightarrow> string \<Rightarrow> 'b world \<Rightarrow> response \<times> 'b world" where
  "Get L key0 w =
     (let key = path_Clean L key0 in
      case map_of (Nodes w) key of
        Some node \<Rightarrow>
          (\<lparr>Action = GET, Key = key, OldValue = Value node, NewValue = Value node,
            Exist = True, Expiration = ExpireTime node, Index = 0\<rparr>, w)
      | None \<Rightarrow>
          (\<lparr>Action = GET, Key = key, OldValue = [], NewValue = [],
            Exist = False, Expiration = Unix 0 0, Index = 0\<rparr>, w))"

text \<open>
  The branch \<^verbatim>\<open>case <-time.After(duration)\<close> of \<^verbatim>\<open>expire\<close>: the goroutine \<open>tk\<close> returns
  in either case; if the key is still in the map it is deleted and announced with
  index 0.
\<close>

definition expire_timeout :: "'b lib \<Rightarrow> task \<Rightarrow> 'b world \<Rightarrow> 'b world" where
  "expire_timeout L tk w =
     (let key = tkey tk;
          w0 = w\<lparr>tasks := remove1 tk (tasks w)\<rparr>
      in case map_of (Nodes w0) key of
           None \<Rightarrow> w0
         | Some node \<Rightarrow>
             snd (publish L
               \<lparr>Action = DELETE, Key = key, OldValue = Value node, NewValue = [],
                Exist = True, Expiration = ExpireTime node, Index = 0\<rparr>
               (w0\<lparr>Nodes := AList.delete key (Nodes w0)\<rparr>)))"

subsection \<open>Save, Recovery and clean\<close>

text \<open>
  \<^verbatim>\<open>Save\<close> encodes the store: the exported fields of every node, without the channel.
\<close>

definition exported :: "string \<times> node \<Rightarrow> string \<times> string \<times> time" where
  "exported e = (fst e, Value (snd e), ExpireTime (snd e))"

definition Save :: "'b lib \<Rightarrow> 'b world \<Rightarrow> error + 'b" where
  "Save L w = marshal_Store L (map exported (Nodes w))"

text \<open>
  \<^verbatim>\<open>json.Unmarshal(state, s)\<close> decodes into the store \<^verbatim>\<open>s\<close> as it is. As
  \<^verbatim>\<open>encoding/json\<close> documents, a map that is not nil is reused and keeps its entries;
  each member of the snapshot's \<^verbatim>\<open>nodes\<close> object is stored under its key as a new
  \<^verbatim>\<open>Node\<close>, whose unexported field \<^verbatim>\<open>update\<close> stays nil. (A snapshot whose \<^verbatim>\<open>nodes\<close>
  member is \<^verbatim>\<open>null\<close> would set the map itself to nil; it is not covered.)
\<close>

definition decoded :: "string \<times> string \<times> time \<Rightarrow> string \<times> node" where
  "decoded e = (fst e, \<lparr>Value = fst (snd e), ExpireTime = snd (snd e), update = None\<rparr>)"

definition Unmarshal :: "'b lib \<Rightarrow> 'b \<Rightarrow> 'b world \<Rightarrow> error option \<times> 'b world" where
  "Unmarshal L state w =
     (let (entries, err) = unmarshal_Store L state
      in (err, w\<lparr>Nodes := foldl (\<lambda>al e. AList.update (fst (decoded e)) (snd (decoded e)) al)
                               (Nodes w) entries\<rparr>))"

text \<open>
  \<^verbatim>\<open>clean\<close> ranges over the map. The loop variable \<^verbatim>\<open>node\<close> is a copy of the entry: the
  channel made for a node that is kept goes to the new goroutine and into the copy, and
  the entry in the map is not written. Deleting the current key during the range is
  allowed in Go and every other entry is still visited once. The clock is taken as one
  reading for the whole loop.
\<close>

fun clean_loop :: "time \<Rightarrow> (string \<times> node) list \<Rightarrow> 'b world \<Rightarrow> 'b world" where
  "clean_loop now [] w = w"
| "clean_loop now ((key, node) # rest) w =
     clean_loop now rest
       (if Equal (ExpireTime node) PERMANENT then w
        else if Second \<le> Sub (ExpireTime node) now
        then w\<lparr>chans := Suc (chans w),
               tasks := tasks w @ [go_expire key (chans w) (ExpireTime node) now]\<rparr>
        else w\<lparr>Nodes := AList.delete key (Nodes w)\<rparr>)"

definition clean :: "time \<Rightarrow> 'b world \<Rightarrow> 'b world" where
  "clean now w = clean_loop now (Nodes w) w"

definition Recovery :: "'b lib \<Rightarrow> 'b \<Rightarrow> time \<Rightarrow> 'b world \<Rightarrow> error option \<times> 'b world" where
  "Recovery L state now w =
     (let (err, w1) = Unmarshal L state w
      in (err, clean now w1))"

text \<open>
  The test under which \<^verbatim>\<open>clean\<close> deletes a node: it is not permanent and less than a
  second is left of its time to live.
\<close>

definition dropped :: "time \<Rightarrow> node \<Rightarrow> bool" where
  "dropped now node =
     (\<not> Equal (ExpireTime node) PERMANENT \<and> \<not> Second \<le> Sub (ExpireTime node) now)"

subsection \<open>A library to run the operations on\<close>

text \<open>
  To evaluate the operations on concrete inputs the parameters need values. The
  encoded text is represented by the document it encodes. As \<^verbatim>\<open>Time.MarshalJSON\<close>
  does, encoding fails on an instant whose year lies outside 0 to 9999 (taken in
  UTC). \<open>go_path_Clean\<close> follows the rules \<^verbatim>\<open>path.Clean\<close> documents: empty and \<^verbatim>\<open>.\<close>
  elements are dropped, \<^verbatim>\<open>..\<close> removes the element before it, a \<^verbatim>\<open>..\<close> at the root is
  dropped, a leading \<^verbatim>\<open>..\<close> of an unrooted path is kept, and the empty result is
  \<^verbatim>\<open>.\<close>.
\<close>

datatype doc = Envelope response | Snapshot "(string \<times> string \<times> time) list"

definition year_in_range :: "time \<Rightarrow> bool" where
  "year_in_range t = (Unix (- 62167219200) 0 \<le> t \<and> t < Unix 253402300800 0)"

fun elements :: "string \<Rightarrow> string \<Rightarrow> string list" where
  "elements acc [] = [acc]"
| "elements acc (c # cs) =
     (if c = CHR ''/'' then acc # elements [] cs else elements (acc @ [c]) cs)"

fun clean_elements :: "bool \<Rightarrow> string list \<Rightarrow> string list \<Rightarrow> string list" where
  "clean_elements rooted out [] = rev out"
| "clean_elements rooted out (e # es) =
     (if e = [] \<or> e = ''.'' then clean_elements rooted out es
      else if e = ''..'' then
        (case out of
           [] \<Rightarrow> clean_elements rooted (if rooted then [] else [''..'']) es
         | x # xs \<Rightarrow>
             if x = ''..'' then clean_elements rooted (''..'' # out) es
             else clean_elements rooted xs es)
      else clean_elements rooted (e # out) es)"

fun join_slash :: "string list \<Rightarrow> string" where
  "join_slash [] = []"
| "join_slash [e] = e"
| "join_slash (e # es) = e @ ''/'' @ join_slash es"

definition go_path_Clean :: "string \<Rightarrow> string" where
  "go_path_Clean p =
     (let rooted = (p \<noteq> [] \<and> hd p = CHR ''/'');
          body = join_slash (clean_elements rooted [] (elements [] p));
          res = (if rooted then ''/'' @ body else body)
      in if res = [] then ''.'' else res)"

definition sample_lib :: "doc lib" where
  "sample_lib =
     \<lparr>path_Clean = go_path_Clean,
      marshal_Response =
        (\<lambda>r. if year_in_range (Expiration r) then Inr (Envelope r) else Inl SerializationError),
      marshal_Store =
        (\<lambda>es. if list_all (\<lambda>e. year_in_range (snd (snd e))) es then Inr (Snapshot es)
              else Inl SerializationError),
      unmarshal_Store =
        (\<lambda>d. case d of
               Snapshot es \<Rightarrow> (es, None)
             | Envelope r \<Rightarrow> ([], Some DeserializationError))\<rparr>"

text \<open>
  A state to run on: \<^verbatim>\<open>/a\<close> is permanent, \<^verbatim>\<open>/t\<close> expires five seconds after the epoch
  and its goroutine listens on channel 1. It is the state after
  \<^verbatim>\<open>Set("/a", "1", PERMANENT, 1)\<close> and \<^verbatim>\<open>Set("/t", "v", Unix(5, 0), 2)\<close> at second 1,
  followed by \<^verbatim>\<open>SetMessager\<close> with a channel that has received nothing yet.
\<close>

definition sample_world :: "doc world" where
  "sample_world =
     \<lparr>Nodes = [(''/a'', \<lparr>Value = ''1'', ExpireTime = PERMANENT, update = Some 0\<rparr>),
               (''/t'', \<lparr>Value = ''v'', ExpireTime = Unix 5 0, update = Some 1\<rparr>)],
      messager = Some [],
      notified =
        [\<lparr>Action = SET, Key = ''/a'', OldValue = [], NewValue = ''1'', Exist = False,
          Expiration = PERMANENT, Index = 1\<rparr>,
         \<lparr>Action = SET, Key = ''/t'', OldValue = [], NewValue = ''v'', Exist = False,
          Expiration = Unix 5 0, Index = 2\<rparr>],
      tasks = [\<lparr>tkey = ''/t'', tupdate = 1, duration = 4000000000\<rparr>],
      chans = 2\<rparr>"

subsection \<open>When a send is received\<close>

text \<open>
  The goroutine of a node listens if some running \<^verbatim>\<open>expire\<close> holds the node's channel.
  \<^verbatim>\<open>Set\<close> and \<^verbatim>\<open>Delete\<close> send to the channel of a volatile node only, so they return
  when the node is permanent or its goroutine listens.
\<close>

definition listening :: "node \<Rightarrow> 'b world \<Rightarrow> bool" where
  "listening node w =
     (case update node of None \<Rightarrow> False | Some c \<Rightarrow> c \<in> tupdate ` set (tasks w))"

subsection \<open>States in which every volatile node has its goroutine\<close>

text \<open>
  The goroutines are linked to the map when no two of them share a channel, every one
  of them runs on a channel that was made and belongs to a volatile node that holds this
  channel under the goroutine's key, and every volatile node has a goroutine of its key
  on its channel.
\<close>

definition linked_on :: "(string \<rightharpoonup> node) \<Rightarrow> task list \<Rightarrow> nat \<Rightarrow> bool" where
  "linked_on m ts cs \<longleftrightarrow>
     distinct (map tupdate ts) \<and>
     (\<forall>tk \<in> set ts. tupdate tk < cs \<and>
        (\<exists>n. m (tkey tk) = Some n \<and> update n = Some (tupdate tk) \<and>
             ExpireTime n \<noteq> PERMANENT)) \<and>
     (\<forall>k n. m k = Some n \<longrightarrow> ExpireTime n \<noteq> PERMANENT \<longrightarrow>
        (\<exists>tk \<in> set ts. tkey tk = k \<and> update n = Some (tupdate tk)))"

definition linked :: "'b world \<Rightarrow> bool" where
  "linked w = linked_on (map_of (Nodes w)) (tasks w) (chans w)"

text \<open>
  The states reached from the empty store by setting the messager, by calls of \<^verbatim>\<open>Set\<close>
  and \<^verbatim>\<open>Delete\<close> that return, and by timers of running goroutines, each taken as one
  step.
\<close>

inductive reachable :: "'b lib \<Rightarrow> 'b world \<Rightarrow> bool" for L :: "'b lib" where
  reach_init: "reachable L createStore"
| reach_messager: "reachable L w \<Longrightarrow> reachable L (SetMessager m w)"
| reach_Set:
    "reachable L w \<Longrightarrow> Set L key val expireTime index now w = Some (r, w') \<Longrightarrow> reachable L w'"
| reach_Delete:
    "reachable L w \<Longrightarrow> Delete L key index now w = Some (r, w') \<Longrightarrow> reachable L w'"
| reach_timeout:
    "reachable L w \<Longrightarrow> tk \<in> set (tasks w) \<Longrightarrow> reachable L (expire_timeout L tk w)"

section \<open>Properties\<close>

subsection \<open>Clock arithmetic, channels and publishing\<close>

lemma Sub_neg_iff: "Sub t u < 0 \<longleftrightarrow> t < u"
  by (simp add: Sub_def minDuration_def maxDuration_def)

lemma Second_le_Sub_iff: "Second \<le> Sub t u \<longleftrightarrow> u + Second \<le> t"
  by (auto simp: Sub_def minDuration_def maxDuration_def Second_def)

lemma chan_send_Some_iff:
  "(\<exists>ts'. chan_send ch v now ts = Some ts') \<longleftrightarrow> (\<exists>c. ch = Some c \<and> c \<in> tupdate ` set ts)"
proof (cases ch)
  case None
  then show ?thesis by simp
next
  case (Some c)
  have "(\<exists>ts'. chan_send (Some c) v now ts = Some ts') \<longleftrightarrow> c \<in> tupdate ` set ts"
    by (induction ts) auto
  with Some show ?thesis by simp
qed

lemma publish_eq:
  "publish L resp w =
     (marshal_Response L resp,
      w\<lparr>notified := notified w @ [resp],
        messager := send_messager (marshal_Response L resp) (messager w)\<rparr>)"
  by (simp add: publish_def Let_def notify_def)

lemmas sample_defs =
  sample_world_def sample_lib_def go_path_Clean_def year_in_range_def Unix_def
  PERMANENT_def Equal_def Sub_def minDuration_def maxDuration_def Second_def
  SET_def DELETE_def GET_def createStore_def Let_def

subsection \<open>The branches of Delete, Set and the timer\<close>

lemma Delete_absent:
  "map_of (Nodes w) (path_Clean L key) = None \<Longrightarrow>
   Delete L key index now w =
     Some (marshal_Response L
            \<lparr>Action = DELETE, Key = path_Clean L key, OldValue = [], NewValue = [],
             Exist = False, Expiration = PERMANENT, Index = index\<rparr>, w)"
  by (simp add: Delete_def Let_def PERMANENT_def)

lemma Delete_present:
  assumes "map_of (Nodes w) (path_Clean L key) = Some node"
    and "ExpireTime node = PERMANENT \<or> listening node w"
  shows "\<exists>ts. Delete L key index now w =
           Some (publish L
                  \<lparr>Action = DELETE, Key = path_Clean L key, OldValue = Value node, NewValue = [],
                   Exist = True, Expiration = ExpireTime node, Index = index\<rparr>
                  (w\<lparr>tasks := ts, Nodes := AList.delete (path_Clean L key) (Nodes w)\<rparr>))"
proof (cases "ExpireTime node = PERMANENT")
  case True
  with assms(1) show ?thesis
    by (intro exI[of _ "tasks w"]) (simp add: Delete_def Let_def Equal_def)
next
  case False
  with assms(2) obtain c where c: "update node = Some c" "c \<in> tupdate ` set (tasks w)"
    by (auto simp: listening_def split: option.splits)
  then obtain ts' where "chan_send (update node) PERMANENT now (tasks w) = Some ts'"
    using chan_send_Some_iff[of "update node" PERMANENT now "tasks w"] by auto
  with assms(1) False show ?thesis
    by (intro exI[of _ ts']) (simp add: Delete_def Let_def Equal_def)
qed

lemma Delete_blocked:
  assumes "map_of (Nodes w) (path_Clean L key) = Some node"
    and "ExpireTime node \<noteq> PERMANENT" and "\<not> listening node w"
  shows "Delete L key index now w = None"
proof -
  have "chan_send (update node) PERMANENT now (tasks w) = None"
    using chan_send_Some_iff[of "update node" PERMANENT now "tasks w"] assms(3)
    by (cases "chan_send (update node) PERMANENT now (tasks w)")
       (auto simp: listening_def split: option.splits)
  with assms(1,2) show ?thesis
    by (simp add: Delete_def Let_def Equal_def)
qed

lemma Set_expired:
  "expireTime \<noteq> PERMANENT \<Longrightarrow> expireTime < now \<Longrightarrow>
   Set L key val expireTime index now w = Delete L (path_Clean L key) index now w"
  by (simp add: Set_def Let_def Equal_def Sub_neg_iff)

lemma Set_absent:
  assumes "\<not> (expireTime \<noteq> PERMANENT \<and> expireTime < now)"
    and "map_of (Nodes w) (path_Clean L key) = None"
  shows "\<exists>ts. Set L key val expireTime index now w =
           Some (publish L
                  \<lparr>Action = SET, Key = path_Clean L key, OldValue = [], NewValue = val,
                   Exist = False, Expiration = expireTime, Index = index\<rparr>
                  (w\<lparr>chans := Suc (chans w), tasks := ts,
                     Nodes := AList.update (path_Clean L key)
                       \<lparr>Value = val, ExpireTime = expireTime, update = Some (chans w)\<rparr> (Nodes w)\<rparr>))"
  using assms by (cases w) (auto simp: Set_def Let_def Equal_def Sub_neg_iff)

lemma Set_present:
  assumes "\<not> (expireTime \<noteq> PERMANENT \<and> expireTime < now)"
    and "map_of (Nodes w) (path_Clean L key) = Some node"
    and "ExpireTime node = PERMANENT \<or> listening node w"
  shows "\<exists>ts cs upd. Set L key val expireTime index now w =
           Some (publish L
                  \<lparr>Action = SET, Key = path_Clean L key, OldValue = Value node, NewValue = val,
                   Exist = True, Expiration = expireTime, Index = index\<rparr>
                  (w\<lparr>chans := cs, tasks := ts,
                     Nodes := AList.update (path_Clean L key)
                       \<lparr>Value = val, ExpireTime = expireTime, update = upd\<rparr> (Nodes w)\<rparr>))"
proof (cases "ExpireTime node = PERMANENT")
  case True
  with assms(1,2) show ?thesis
    by (cases w) (auto simp: Set_def Let_def Equal_def Sub_neg_iff)
next
  case False
  with assms(3) obtain c where c: "update node = Some c" "c \<in> tupdate ` set (tasks w)"
    by (auto simp: listening_def split: option.splits)
  then obtain ts' where "chan_send (update node) expireTime now (tasks w) = Some ts'"
    using chan_send_Some_iff[of "update node" expireTime now "tasks w"] by auto
  with assms(1,2) False show ?thesis
    by (cases w) (auto simp: Set_def Let_def Equal_def Sub_neg_iff)
qed

lemma Set_blocked:
  assumes "\<not> (expireTime \<noteq> PERMANENT \<and> expireTime < now)"
    and "map_of (Nodes w) (path_Clean L key) = Some node"
    and "ExpireTime node \<noteq> PERMANENT" and "\<not> listening node w"
  shows "Set L key val expireTime index now w = None"
proof -
  have "chan_send (update node) expireTime now (tasks w) = None"
    using chan_send_Some_iff[of "update node" expireTime now "tasks w"] assms(4)
    by (cases "chan_send (update node) expireTime now (tasks w)")
       (auto simp: listening_def split: option.splits)
  with assms(1,2,3) show ?thesis
    by (auto simp: Set_def Let_def Equal_def Sub_neg_iff)
qed

lemma expire_timeout_absent:
  "map_of (Nodes w) (tkey tk) = None \<Longrightarrow>
   expire_timeout L tk w = w\<lparr>tasks := remove1 tk (tasks w)\<rparr>"
  by (simp add: expire_timeout_def Let_def)

lemma expire_timeout_present:
  "map_of (Nodes w) (tkey tk) = Some node \<Longrightarrow>
   expire_timeout L tk w =
     snd (publish L
           \<lparr>Action = DELETE, Key = tkey tk, OldValue = Value node, NewValue = [],
            Exist = True, Expiration = ExpireTime node, Index = 0\<rparr>
           (w\<lparr>tasks := remove1 tk (tasks w), Nodes := AList.delete (tkey tk) (Nodes w)\<rparr>))"
  by (simp add: expire_timeout_def Let_def)

lemma Set_absent_effect:
  assumes "\<not> (expireTime \<noteq> PERMANENT \<and> expireTime < now)"
    and "map_of (Nodes w) (path_Clean L key) = None"
    and "r = \<lparr>Action = SET, Key = path_Clean L key, OldValue = [], NewValue = val,
              Exist = False, Expiration = expireTime, Index = index\<rparr>"
  shows "\<exists>w'. Set L key val expireTime index now w = Some (marshal_Response L r, w') \<and>
           notified w' = notified w @ [r] \<and>
           messager w' = send_messager (marshal_Response L r) (messager w) \<and>
           map_of (Nodes w') =
             (map_of (Nodes w))(path_Clean L key \<mapsto>
               \<lparr>Value = val, ExpireTime = expireTime, update = Some (chans w)\<rparr>)"
  using Set_absent[OF assms(1,2), of val index] assms(3)
  by (auto simp: publish_eq AList.update_conv')

lemma Set_present_effect:
  assumes "\<not> (expireTime \<noteq> PERMANENT \<and> expireTime < now)"
    and "map_of (Nodes w) (path_Clean L key) = Some node"
    and "ExpireTime node = PERMANENT \<or> listening node w"
    and "r = \<lparr>Action = SET, Key = path_Clean L key, OldValue = Value node, NewValue = val,
              Exist = True, Expiration = expireTime, Index = index\<rparr>"
  shows "\<exists>w' upd. Set L key val expireTime index now w = Some (marshal_Response L r, w') \<and>
           notified w' = notified w @ [r] \<and>
           messager w' = send_messager (marshal_Response L r) (messager w) \<and>
           map_of (Nodes w') =
             (map_of (Nodes w))(path_Clean L key \<mapsto>
               \<lparr>Value = val, ExpireTime = expireTime, update = upd\<rparr>)"
  using Set_present[OF assms(1,2,3), of val index] assms(4)
  by (auto simp: publish_eq AList.update_conv')

lemma Delete_present_effect:
  assumes "map_of (Nodes w) (path_Clean L key) = Some node"
    and "ExpireTime node = PERMANENT \<or> listening node w"
    and "r = \<lparr>Action = DELETE, Key = path_Clean L key, OldValue = Value node, NewValue = [],
              Exist = True, Expiration = ExpireTime node, Index = index\<rparr>"
  shows "\<exists>w'. Delete L key index now w = Some (marshal_Response L r, w') \<and>
           notified w' = notified w @ [r] \<and>
           messager w' = send_messager (marshal_Response L r) (messager w) \<and>
           map_of (Nodes w') = (map_of (Nodes w))(path_Clean L key := None)"
  using Delete_present[OF assms(1,2), of index now] assms(3)
  by (auto simp: publish_eq AList.delete_conv')

lemma expire_timeout_present_effect:
  assumes "map_of (Nodes w) (tkey tk) = Some node"
    and "r = \<lparr>Action = DELETE, Key = tkey tk, OldValue = Value node, NewValue = [],
              Exist = True, Expiration = ExpireTime node, Index = 0\<rparr>"
  shows "notified (expire_timeout L tk w) = notified w @ [r] \<and>
         messager (expire_timeout L tk w) = send_messager (marshal_Response L r) (messager w) \<and>
         map_of (Nodes (expire_timeout L tk w)) = (map_of (Nodes w))(tkey tk := None) \<and>
         tasks (expire_timeout L tk w) = remove1 tk (tasks w)"
  using expire_timeout_present[OF assms(1), of L] assms(2)
  by (simp add: publish_eq AList.delete_conv')

subsection \<open>Decoding a snapshot and cleaning\<close>

lemma map_of_foldl_update:
  "map_of (foldl (\<lambda>al e. AList.update (fst (decoded e)) (snd (decoded e)) al) al0 es) =
     map_of al0 ++ map_of (rev (map decoded es))"
proof (induction es arbitrary: al0)
  case Nil
  show ?case by simp
next
  case (Cons e es)
  show ?case
    by (auto simp: Cons.IH AList.update_conv' map_of_append fun_eq_iff map_add_def
        split: option.split)
qed

lemma distinct_foldl_update:
  "distinct (map fst al0) \<Longrightarrow>
   distinct (map fst (foldl (\<lambda>al e. AList.update (fst (decoded e)) (snd (decoded e)) al) al0 es))"
  by (induction es arbitrary: al0) (simp_all add: AList.distinct_update)

lemma map_of_clean_loop:
  "map_of (Nodes (clean_loop now es w)) k =
     (if \<exists>n. (k, n) \<in> set es \<and> dropped now n then None else map_of (Nodes w) k)"
proof (induction es arbitrary: w)
  case Nil
  show ?case by simp
next
  case (Cons e es)
  obtain key node where e: "e = (key, node)" by (cases e)
  show ?case
    unfolding e by (auto simp: Cons.IH dropped_def AList.delete_conv')
qed

lemma map_of_clean:
  assumes "distinct (map fst (Nodes w))"
  shows "map_of (Nodes (clean now w)) k =
     (case map_of (Nodes w) k of
        None \<Rightarrow> None
      | Some n \<Rightarrow> if dropped now n then None else Some n)"
proof (cases "map_of (Nodes w) k")
  case None
  then show ?thesis by (simp add: clean_def map_of_clean_loop)
next
  case (Some n)
  have "\<And>m. (k, m) \<in> set (Nodes w) \<longleftrightarrow> m = n"
    using map_of_eq_Some_iff[OF assms, of k] Some by (metis option.inject)
  with Some show ?thesis by (simp add: clean_def map_of_clean_loop)
qed

lemma clean_loop_grows:
  "chans w \<le> chans (clean_loop now es w) \<and> set (tasks w) \<subseteq> set (tasks (clean_loop now es w))"
proof (induction es arbitrary: w)
  case Nil
  show ?case by simp
next
  case (Cons e es)
  obtain key node where e: "e = (key, node)" by (cases e)
  let ?w1 = "w\<lparr>chans := Suc (chans w),
               tasks := tasks w @ [go_expire key (chans w) (ExpireTime node) now]\<rparr>"
  let ?w2 = "w\<lparr>Nodes := AList.delete key (Nodes w)\<rparr>"
  from Cons.IH[of w] Cons.IH[of ?w1] Cons.IH[of ?w2]
  show ?case unfolding e by auto
qed

lemma clean_loop_spawns:
  assumes "(k, n) \<in> set es" and "\<not> Equal (ExpireTime n) PERMANENT"
    and "Second \<le> Sub (ExpireTime n) now"
  shows "\<exists>c. chans w \<le> c \<and> go_expire k c (ExpireTime n) now \<in> set (tasks (clean_loop now es w))"
  using assms(1)
proof (induction es arbitrary: w)
  case Nil
  then show ?case by simp
next
  case (Cons e es)
  obtain key node where e: "e = (key, node)" by (cases e)
  let ?w1 = "w\<lparr>chans := Suc (chans w),
               tasks := tasks w @ [go_expire key (chans w) (ExpireTime node) now]\<rparr>"
  let ?w2 = "w\<lparr>Nodes := AList.delete key (Nodes w)\<rparr>"
  show ?case
  proof (cases "(k, n) = e")
    case True
    with e have kn: "key = k" "node = n" by simp_all
    from clean_loop_grows[of ?w1 now es]
    have "go_expire k (chans w) (ExpireTime n) now \<in> set (tasks (clean_loop now es ?w1))"
      by (auto simp: kn)
    then show ?thesis
      unfolding e using assms(2,3) by (auto simp: kn intro: exI[of _ "chans w"])
  next
    case False
    with Cons.prems have "(k, n) \<in> set es" by simp
    from Cons.IH[OF this, of w] Cons.IH[OF this, of ?w1] Cons.IH[OF this, of ?w2]
    show ?thesis unfolding e by (auto intro: Suc_leD)
  qed
qed

lemma Recovery_eq:
  "unmarshal_Store L state = (es, err) \<Longrightarrow>
   Recovery L state now w =
     (err, clean now (w\<lparr>Nodes :=
        foldl (\<lambda>al e. AList.update (fst (decoded e)) (snd (decoded e)) al) (Nodes w) es\<rparr>))"
  by (simp add: Recovery_def Unmarshal_def)

lemma map_of_Recovery:
  assumes "distinct (map fst (Nodes w))" and "unmarshal_Store L state = (es, err)"
  shows "map_of (Nodes (snd (Recovery L state now w))) k =
     (case (map_of (Nodes w) ++ map_of (rev (map decoded es))) k of
        None \<Rightarrow> None
      | Some n \<Rightarrow> if dropped now n then None else Some n)"
  using assms
  by (simp add: Recovery_eq map_of_clean distinct_foldl_update map_of_foldl_update)



lemma update_decoded: "map_of (rev (map decoded es)) k = Some n \<Longrightarrow> update n = None"
  by (auto dest!: map_of_SomeD simp: decoded_def)




lemmas run_defs = Recovery_def Unmarshal_def clean_def decoded_def exported_def Save_def
  go_expire_def dropped_def

subsection \<open>Set, Delete and the timers keep the goroutines linked\<close>

lemma linked_createStore: "linked createStore"
  by (simp add: linked_def linked_on_def createStore_def)

lemma linked_listening:
  "linked w \<Longrightarrow> map_of (Nodes w) k = Some n \<Longrightarrow> ExpireTime n = PERMANENT \<or> listening n w"
  by (fastforce simp: linked_def linked_on_def listening_def)

lemma linked_publish: "linked (snd (publish L resp w)) = linked w"
  by (simp add: publish_eq linked_def)

lemma chan_send_cancel:
  "distinct (map tupdate ts) \<Longrightarrow> chan_send (Some c) PERMANENT now ts = Some ts' \<Longrightarrow>
   ts' = filter (\<lambda>tk. tupdate tk \<noteq> c) ts"
proof (induction ts arbitrary: ts')
  case Nil
  then show ?case by simp
next
  case (Cons tk ts)
  show ?case
  proof (cases "tupdate tk = c")
    case True
    with Cons.prems have "ts' = ts" and "c \<notin> tupdate ` set ts"
      by (auto simp: expire_update_def Equal_def)
    then have "filter (\<lambda>tk. tupdate tk \<noteq> c) ts = ts"
      by (auto simp: filter_id_conv)
    with True \<open>ts' = ts\<close> show ?thesis
      by simp
  next
    case False
    with Cons.prems obtain ts'' where "chan_send (Some c) PERMANENT now ts = Some ts''"
      and "ts' = tk # ts''"
      by auto
    with Cons.IH[of ts''] Cons.prems(1) False show ?thesis by simp
  qed
qed

lemma chan_send_resched:
  "v \<noteq> PERMANENT \<Longrightarrow> chan_send (Some c) v now ts = Some ts' \<Longrightarrow>
   map (\<lambda>tk. (tkey tk, tupdate tk)) ts' = map (\<lambda>tk. (tkey tk, tupdate tk)) ts"
proof (induction ts arbitrary: ts')
  case Nil
  then show ?case by simp
next
  case (Cons tk ts)
  show ?case
  proof (cases "tupdate tk = c")
    case True
    with Cons.prems show ?thesis
      by (auto simp: expire_update_def Equal_def)
  next
    case False
    with Cons.prems obtain ts'' where "chan_send (Some c) v now ts = Some ts''"
      and "ts' = tk # ts''"
      by auto
    with Cons.IH[of ts''] Cons.prems(1) show ?thesis by simp
  qed
qed

lemma remove1_filter:
  "distinct (map f xs) \<Longrightarrow> x \<in> set xs \<Longrightarrow> remove1 x xs = filter (\<lambda>y. f y \<noteq> f x) xs"
proof (induction xs)
  case Nil
  then show ?case by simp
next
  case (Cons y ys)
  show ?case
  proof (cases "y = x")
    case True
    with Cons.prems(1) have "f x \<notin> f ` set ys"
      by simp
    then have "\<forall>z \<in> set ys. f z \<noteq> f x"
      by (metis imageI)
    then have "filter (\<lambda>y. f y \<noteq> f x) ys = ys"
      by (simp add: filter_id_conv)
    with True show ?thesis by simp
  next
    case False
    with Cons.prems have "x \<in> set ys" "f y \<noteq> f x" by auto
    with Cons False show ?thesis by simp
  qed
qed

lemma linked_on_same_ids:
  assumes "linked_on m ts cs"
    and "map (\<lambda>tk. (tkey tk, tupdate tk)) ts' = map (\<lambda>tk. (tkey tk, tupdate tk)) ts"
  shows "linked_on m ts' cs"
proof -
  have t: "map tupdate ts' = map tupdate ts"
    using arg_cong[OF assms(2), of "map snd"] by (simp add: comp_def)
  have "(\<exists>tk \<in> set xs. tkey tk = k \<and> tupdate tk = c) \<longleftrightarrow>
        (k, c) \<in> set (map (\<lambda>tk. (tkey tk, tupdate tk)) xs)" for xs :: "task list" and k c
    by auto
  then have pairs: "(\<exists>tk \<in> set ts'. tkey tk = k \<and> tupdate tk = c) \<longleftrightarrow>
      (\<exists>tk \<in> set ts. tkey tk = k \<and> tupdate tk = c)" for k c
    by (simp only: assms(2))
  have i2: "tupdate tk < cs \<and>
      (\<exists>n. m (tkey tk) = Some n \<and> update n = Some (tupdate tk) \<and> ExpireTime n \<noteq> PERMANENT)"
    if "tk \<in> set ts'" for tk
  proof -
    from that pairs[of "tkey tk" "tupdate tk"]
    obtain tk0 where "tk0 \<in> set ts" "tkey tk0 = tkey tk" "tupdate tk0 = tupdate tk"
      by auto
    with assms(1) show ?thesis
      unfolding linked_on_def by fastforce
  qed
  have i3: "\<exists>tk \<in> set ts'. tkey tk = k \<and> update n = Some (tupdate tk)"
    if "m k = Some n" and "ExpireTime n \<noteq> PERMANENT" for k n
  proof -
    from assms(1) that obtain tk0 where "tk0 \<in> set ts" "tkey tk0 = k"
      "update n = Some (tupdate tk0)"
      unfolding linked_on_def by blast
    with pairs[of k "tupdate tk0"] show ?thesis by auto
  qed
  from assms(1) have "distinct (map tupdate ts')"
    by (simp add: t linked_on_def)
  with i2 i3 show ?thesis
    unfolding linked_on_def by blast
qed

lemma linked_on_value:
  assumes "linked_on m ts cs" and "m k = Some n"
    and "ExpireTime n' = PERMANENT \<longleftrightarrow> ExpireTime n = PERMANENT"
    and "update n' = update n"
  shows "linked_on (m(k \<mapsto> n')) ts cs"
  using assms unfolding linked_on_def by (auto; metis)

lemma linked_on_insert_permanent:
  assumes "linked_on m ts cs"
    and "m k = None \<or> (\<exists>n. m k = Some n \<and> ExpireTime n = PERMANENT)"
    and "cs \<le> cs'" and "ExpireTime n' = PERMANENT"
  shows "linked_on (m(k \<mapsto> n')) ts cs'"
  using assms unfolding linked_on_def by (auto; fastforce)

lemma linked_on_insert_volatile:
  assumes "linked_on m ts cs"
    and "m k = None \<or> (\<exists>n. m k = Some n \<and> ExpireTime n = PERMANENT)"
    and "ExpireTime n' \<noteq> PERMANENT" and "update n' = Some cs"
    and "tkey tk = k" and "tupdate tk = cs"
  shows "linked_on (m(k \<mapsto> n')) (ts @ [tk]) (Suc cs)"
  using assms unfolding linked_on_def by (auto; fastforce)

lemma linked_on_remove:
  assumes "linked_on m ts cs"
    and "m k = Some n" and "ExpireTime n \<noteq> PERMANENT" and "update n = Some c"
    and "m' = m(k := None) \<or> (\<exists>n'. m' = m(k \<mapsto> n') \<and> ExpireTime n' = PERMANENT)"
  shows "linked_on m' (filter (\<lambda>tk. tupdate tk \<noteq> c) ts) cs"
proof -
  have inj: "tk = tk'" if "tk \<in> set ts" "tk' \<in> set ts" "tupdate tk = tupdate tk'" for tk tk'
    using assms(1) that unfolding linked_on_def
    by (meson distinct_map inj_onD)
  have other: "m' k' = m k'" if "k' \<noteq> k" for k'
    using assms(5) that by auto
  have gone: "m' k = None \<or> (\<exists>n'. m' k = Some n' \<and> ExpireTime n' = PERMANENT)"
    using assms(5) by auto
  let ?ts = "filter (\<lambda>tk. tupdate tk \<noteq> c) ts"
  have i2: "tupdate tk < cs \<and>
      (\<exists>n. m' (tkey tk) = Some n \<and> update n = Some (tupdate tk) \<and> ExpireTime n \<noteq> PERMANENT)"
    if "tk \<in> set ?ts" for tk
  proof -
    from that have that: "tk \<in> set ts" "tupdate tk \<noteq> c" by simp_all
    from assms(1) that(1) obtain n0 where n0: "tupdate tk < cs" "m (tkey tk) = Some n0"
      "update n0 = Some (tupdate tk)" "ExpireTime n0 \<noteq> PERMANENT"
      unfolding linked_on_def by blast
    with that(2) assms(2,4) have "tkey tk \<noteq> k" by auto
    with n0 other show ?thesis by simp
  qed
  have i3: "\<exists>tk \<in> set ?ts. tkey tk = k' \<and> update n' = Some (tupdate tk)"
    if "m' k' = Some n'" and "ExpireTime n' \<noteq> PERMANENT" for k' n'
  proof -
    from that gone have ne: "k' \<noteq> k" by auto
    with that other have "m k' = Some n'" by simp
    with assms(1) that(2) obtain tk where tk: "tk \<in> set ts" "tkey tk = k'"
      "update n' = Some (tupdate tk)"
      unfolding linked_on_def by blast
    from assms(1,2,3,4) obtain tk2 where tk2: "tk2 \<in> set ts" "tkey tk2 = k" "tupdate tk2 = c"
      unfolding linked_on_def by force
    have "tupdate tk \<noteq> c"
    proof
      assume "tupdate tk = c"
      with inj[OF tk(1) tk2(1)] tk2(3) have "tk = tk2" by simp
      with tk(2) tk2(2) ne show False by simp
    qed
    with tk show ?thesis by auto
  qed
  from assms(1) have "distinct (map tupdate ?ts)"
    unfolding linked_on_def by (simp add: distinct_map_filter)
  with i2 i3 show ?thesis
    unfolding linked_on_def by blast
qed

lemma linked_on_delete_permanent:
  assumes "linked_on m ts cs" and "m k = Some n" and "ExpireTime n = PERMANENT"
  shows "linked_on (m(k := None)) ts cs"
  using assms unfolding linked_on_def by (auto; fastforce)

lemma linked_distinct: "linked w \<Longrightarrow> distinct (map tupdate (tasks w))"
  by (simp add: linked_def linked_on_def)

lemma linked_Delete:
  assumes "linked w" and "Delete L key index now w = Some (r, w')"
  shows "linked w'"
proof (cases "map_of (Nodes w) (path_Clean L key)")
  case None
  with assms show ?thesis by (simp add: Delete_absent)
next
  case (Some n)
  show ?thesis
  proof (cases "ExpireTime n = PERMANENT")
    case True
    with Some assms(2)
    have w': "w' = snd (publish L
        \<lparr>Action = DELETE, Key = path_Clean L key, OldValue = Value n, NewValue = [],
         Exist = True, Expiration = ExpireTime n, Index = index\<rparr>
        (w\<lparr>tasks := tasks w, Nodes := AList.delete (path_Clean L key) (Nodes w)\<rparr>))"
      by (auto simp: Delete_def Let_def Equal_def)
    from linked_on_delete_permanent[OF assms(1)[unfolded linked_def] Some True]
    show ?thesis
      unfolding w' linked_publish by (simp add: linked_def AList.delete_conv')
  next
    case False
    with Some assms(2) obtain ts where ts: "chan_send (update n) PERMANENT now (tasks w) = Some ts"
      and w': "w' = snd (publish L
        \<lparr>Action = DELETE, Key = path_Clean L key, OldValue = Value n, NewValue = [],
         Exist = True, Expiration = ExpireTime n, Index = index\<rparr>
        (w\<lparr>tasks := ts, Nodes := AList.delete (path_Clean L key) (Nodes w)\<rparr>))"
      by (auto simp: Delete_def Let_def Equal_def split: option.splits)
    from ts obtain c where c: "update n = Some c"
      by (cases "update n") auto
    from chan_send_cancel[OF linked_distinct[OF assms(1)], of c now ts] ts c
    have "ts = filter (\<lambda>tk. tupdate tk \<noteq> c) (tasks w)" by simp
    with linked_on_remove[OF assms(1)[unfolded linked_def] Some False c, of
        "(map_of (Nodes w))(path_Clean L key := None)", OF disjI1, OF refl]
    show ?thesis
      unfolding w' linked_publish by (simp add: linked_def AList.delete_conv')
  qed
qed

lemma linked_expire_timeout:
  assumes "linked w" and "tk \<in> set (tasks w)"
  shows "linked (expire_timeout L tk w)"
proof -
  from assms obtain n where n: "map_of (Nodes w) (tkey tk) = Some n"
    "update n = Some (tupdate tk)" "ExpireTime n \<noteq> PERMANENT"
    unfolding linked_def linked_on_def by blast
  have "remove1 tk (tasks w) = filter (\<lambda>x. tupdate x \<noteq> tupdate tk) (tasks w)"
    using linked_distinct[OF assms(1)] assms(2) by (rule remove1_filter)
  with linked_on_remove[OF assms(1)[unfolded linked_def] n(1,3,2), of
      "(map_of (Nodes w))(tkey tk := None)", OF disjI1, OF refl]
  show ?thesis
    unfolding expire_timeout_present[OF n(1)] linked_publish
    by (simp add: linked_def AList.delete_conv')
qed

lemma linked_Set:
  assumes "linked w" and "Set L key val expireTime index now w = Some (r, w')"
  shows "linked w'"
proof (cases "expireTime \<noteq> PERMANENT \<and> expireTime < now")
  case True
  with assms(2) have "Delete L (path_Clean L key) index now w = Some (r, w')"
    by (simp add: Set_expired)
  with assms(1) show ?thesis by (rule linked_Delete)
next
  case live: False
  let ?k = "path_Clean L key"
  let ?m = "map_of (Nodes w)"
  note lw = assms(1)[unfolded linked_def]
  show ?thesis
  proof (cases "?m ?k")
    case None
    let ?n' = "\<lparr>Value = val, ExpireTime = expireTime, update = Some (chans w)\<rparr>"
    let ?resp = "\<lparr>Action = SET, Key = ?k, OldValue = [], NewValue = val,
         Exist = False, Expiration = expireTime, Index = index\<rparr>"
    show ?thesis
    proof (cases "expireTime = PERMANENT")
      case True
      with None live assms(2)
      have w': "w' = snd (publish L ?resp
          (w\<lparr>chans := Suc (chans w), Nodes := AList.update ?k ?n' (Nodes w)\<rparr>))"
        by (auto simp: Set_def Let_def Equal_def Sub_neg_iff)
      from linked_on_insert_permanent[OF lw, of ?k "Suc (chans w)" ?n'] None True
      show ?thesis
        unfolding w' linked_publish by (simp add: linked_def AList.update_conv')
    next
      case False
      with None live assms(2)
      have w': "w' = snd (publish L ?resp
          (w\<lparr>chans := Suc (chans w), Nodes := AList.update ?k ?n' (Nodes w),
             tasks := tasks w @ [go_expire ?k (chans w) expireTime now]\<rparr>))"
        by (auto simp: Set_def Let_def Equal_def Sub_neg_iff)
      from linked_on_insert_volatile[OF lw, of ?k ?n' "go_expire ?k (chans w) expireTime now"]
        None False
      show ?thesis
        unfolding w' linked_publish by (simp add: linked_def AList.update_conv' go_expire_def)
    qed
  next
    case (Some n)
    let ?resp = "\<lparr>Action = SET, Key = ?k, OldValue = Value n, NewValue = val,
         Exist = True, Expiration = expireTime, Index = index\<rparr>"
    show ?thesis
    proof (cases "ExpireTime n = PERMANENT")
      case perm: True
      show ?thesis
      proof (cases "expireTime = PERMANENT")
        case True
        let ?n' = "\<lparr>Value = val, ExpireTime = expireTime, update = update n\<rparr>"
        from Some live perm True assms(2)
        have w': "w' = snd (publish L ?resp (w\<lparr>Nodes := AList.update ?k ?n' (Nodes w)\<rparr>))"
          by (auto simp: Set_def Let_def Equal_def Sub_neg_iff)
        from linked_on_insert_permanent[OF lw, of ?k "chans w" ?n'] Some perm True
        show ?thesis
          unfolding w' linked_publish by (simp add: linked_def AList.update_conv')
      next
        case False
        let ?n' = "\<lparr>Value = val, ExpireTime = expireTime, update = Some (chans w)\<rparr>"
        from Some live perm False assms(2)
        have w': "w' = snd (publish L ?resp
          (w\<lparr>chans := Suc (chans w),
             tasks := tasks w @ [go_expire ?k (chans w) expireTime now],
             Nodes := AList.update ?k ?n' (Nodes w)\<rparr>))"
          by (auto simp: Set_def Let_def Equal_def Sub_neg_iff)
        from linked_on_insert_volatile[OF lw, of ?k ?n' "go_expire ?k (chans w) expireTime now"]
          Some perm False
        show ?thesis
          unfolding w' linked_publish by (simp add: linked_def AList.update_conv' go_expire_def)
      qed
    next
      case vol: False
      let ?n' = "\<lparr>Value = val, ExpireTime = expireTime, update = update n\<rparr>"
      from Some live vol assms(2) obtain ts
        where ts: "chan_send (update n) expireTime now (tasks w) = Some ts"
          and w': "w' = snd (publish L ?resp
            (w\<lparr>tasks := ts, Nodes := AList.update ?k ?n' (Nodes w)\<rparr>))"
        by (auto simp: Set_def Let_def Equal_def Sub_neg_iff split: option.splits)
      from ts obtain c where c: "update n = Some c"
        by (cases "update n") auto
      show ?thesis
      proof (cases "expireTime = PERMANENT")
        case True
        from chan_send_cancel[OF linked_distinct[OF assms(1)], of c now ts] ts c True
        have "ts = filter (\<lambda>tk. tupdate tk \<noteq> c) (tasks w)" by simp
        moreover from True
        have "?m(?k \<mapsto> ?n') = ?m(?k := None) \<or>
            (\<exists>n'. ?m(?k \<mapsto> ?n') = ?m(?k \<mapsto> n') \<and> ExpireTime n' = PERMANENT)"
          by auto
        note linked_on_remove[OF lw Some vol c this]
        ultimately show ?thesis
          unfolding w' linked_publish by (simp add: linked_def AList.update_conv')
      next
        case False
        from chan_send_resched[OF False, of c now "tasks w" ts] ts c
        have "linked_on ?m ts (chans w)"
          using linked_on_same_ids[OF lw] by simp
        from linked_on_value[OF this Some, of ?n'] vol False
        show ?thesis
          unfolding w' linked_publish by (simp add: linked_def AList.update_conv')
      qed
    qed
  qed
qed

lemma linked_Delete_returns:
  assumes "linked w"
  shows "\<exists>r w'. Delete L key index now w = Some (r, w')"
proof (cases "map_of (Nodes w) (path_Clean L key)")
  case None
  then show ?thesis by (simp add: Delete_absent)
next
  case (Some n)
  from Delete_present[OF Some linked_listening[OF assms Some], of index now]
  show ?thesis by (auto simp: publish_eq)
qed

lemma linked_Set_returns:
  assumes "linked w"
  shows "\<exists>r w'. Set L key val expireTime index now w = Some (r, w')"
proof (cases "expireTime \<noteq> PERMANENT \<and> expireTime < now")
  case True
  with linked_Delete_returns[OF assms, of L "path_Clean L key" index now]
  show ?thesis by (simp add: Set_expired)
next
  case live: False
  show ?thesis
  proof (cases "map_of (Nodes w) (path_Clean L key)")
    case None
    from Set_absent[OF live None, of val index]
    show ?thesis by (auto simp: publish_eq)
  next
    case (Some n)
    from Set_present[OF live Some linked_listening[OF assms Some], of val index]
    show ?thesis by (auto simp: publish_eq)
  qed
qed

lemma linked_one_task:
  assumes "linked w"
  shows "length (filter (\<lambda>tk. tkey tk = k) (tasks w)) =
     (case map_of (Nodes w) k of
        None \<Rightarrow> 0
      | Some n \<Rightarrow> if ExpireTime n = PERMANENT then 0 else 1)"
proof -
  let ?ts = "filter (\<lambda>tk. tkey tk = k) (tasks w)"
  have d: "distinct (map tupdate ?ts)"
    using assms by (simp add: linked_def linked_on_def distinct_map_filter)
  have node: "\<exists>n. map_of (Nodes w) k = Some n \<and> update n = Some (tupdate tk) \<and>
      ExpireTime n \<noteq> PERMANENT" if "tk \<in> set ?ts" for tk
  proof -
    from that have "tk \<in> set (tasks w)" and "tkey tk = k" by simp_all
    with assms show ?thesis
      unfolding linked_def linked_on_def by blast
  qed
  show ?thesis
  proof (cases "\<exists>n. map_of (Nodes w) k = Some n \<and> ExpireTime n \<noteq> PERMANENT")
    case False
    have "tk \<notin> set ?ts" for tk
      using node[of tk] False by auto
    then have "set ?ts = {}" by (simp only: set_eq_iff empty_iff simp_thms)
    then have "?ts = []" by (simp only: set_empty)
    with False show ?thesis
      by (cases "map_of (Nodes w) k") auto
  next
    case True
    then obtain n where n: "map_of (Nodes w) k = Some n" "ExpireTime n \<noteq> PERMANENT"
      by blast
    with assms obtain tk where tk: "tk \<in> set (tasks w)" "tkey tk = k"
      "update n = Some (tupdate tk)"
      unfolding linked_def linked_on_def by blast
    have "tupdate x = tupdate tk" if "x \<in> set ?ts" for x
      using node[OF that] n(1) tk(3) by auto
    then have "set (map tupdate ?ts) \<subseteq> {tupdate tk}"
      by auto
    moreover from tk have "tupdate tk \<in> set (map tupdate ?ts)"
      by auto
    ultimately have "set (map tupdate ?ts) = {tupdate tk}"
      by blast
    then have "card (set (map tupdate ?ts)) = 1"
      by simp
    with d have "length (map tupdate ?ts) = 1"
      by (simp only: distinct_card)
    with n show ?thesis by simp
  qed
qed

lemma reachable_linked: "reachable L w \<Longrightarrow> linked w"
proof (induction rule: reachable.induct)
  case reach_init
  show ?case by (rule linked_createStore)
next
  case (reach_messager w m)
  then show ?case by (simp add: SetMessager_def linked_def)
next
  case (reach_Set w key val expireTime index now r w')
  then show ?case by (blast intro: linked_Set)
next
  case (reach_Delete w key index now r w')
  then show ?case by (blast intro: linked_Delete)
next
  case (reach_timeout w tk)
  then show ?case by (blast intro: linked_expire_timeout)
qed

lemma reachable_returns:
  assumes "reachable L w"
  shows "(\<exists>r w'. Set L key val expireTime index now w = Some (r, w')) \<and>
         (\<exists>r w'. Delete L key index now w = Some (r, w'))"
  using linked_Set_returns[OF reachable_linked[OF assms]]
    linked_Delete_returns[OF reachable_linked[OF assms]]
  by blast

lemma sample_world_reachable: "reachable sample_lib sample_world"
proof -
  let ?r1 = "\<lparr>Action = SET, Key = ''/a'', OldValue = [], NewValue = ''1'', Exist = False,
      Expiration = PERMANENT, Index = 1\<rparr>"
  let ?r2 = "\<lparr>Action = SET, Key = ''/t'', OldValue = [], NewValue = ''v'', Exist = False,
      Expiration = Unix 5 0, Index = 2\<rparr>"
  let ?w1 = "\<lparr>Nodes = [(''/a'', \<lparr>Value = ''1'', ExpireTime = PERMANENT, update = Some 0\<rparr>)],
      messager = None, notified = [?r1], tasks = [], chans = 1\<rparr> :: doc world"
  have s1: "Set sample_lib ''/a'' ''1'' PERMANENT 1 (Unix 1 0) createStore =
      Some (Inr (Envelope ?r1), ?w1)"
    by (simp add: Set_def sample_defs publish_eq send_messager_def)
  have s2: "Set sample_lib ''/t'' ''v'' (Unix 5 0) 2 (Unix 1 0) ?w1 =
      Some (Inr (Envelope ?r2), sample_world\<lparr>messager := None\<rparr>)"
    by (simp add: Set_def sample_defs publish_eq send_messager_def go_expire_def)
  have s3: "sample_world = SetMessager (Some []) (sample_world\<lparr>messager := None\<rparr>)"
    by (simp add: SetMessager_def sample_world_def)
  have "reachable sample_lib ?w1"
    using reach_init s1 by (rule reach_Set)
  then have "reachable sample_lib (sample_world\<lparr>messager := None\<rparr>)"
    using s2 by (rule reach_Set)
  then have "reachable sample_lib (SetMessager (Some []) (sample_world\<lparr>messager := None\<rparr>))"
    by (rule reach_messager)
  with s3 show ?thesis by simp
qed

subsection \<open>Get\<close>

text \<open>
  C7. \<^verbatim>\<open>Get\<close> is a total function and returns the state it was given, so it changes
  neither the map nor the record of \<^verbatim>\<open>notify\<close> calls nor the messager. With the key
  normalised by \<^verbatim>\<open>path.Clean\<close>: for an absent key the response is a GET with
  \<^verbatim>\<open>exist=false\<close>, empty old and new value, the permanent instant and index 0; for a
  present key it is a GET with \<^verbatim>\<open>exist=true\<close>, the node's value and expiration, and
  index 0.
\<close>

theorem Get_reads_only:
  "snd (Get L key w) = w \<and>
   (map_of (Nodes w) (path_Clean L key) = None \<longrightarrow>
      fst (Get L key w) =
        \<lparr>Action = GET, Key = path_Clean L key, OldValue = [], NewValue = [],
         Exist = False, Expiration = PERMANENT, Index = 0\<rparr>) \<and>
   (\<forall>node. map_of (Nodes w) (path_Clean L key) = Some node \<longrightarrow>
      Action (fst (Get L key w)) = GET \<and>
      Key (fst (Get L key w)) = path_Clean L key \<and>
      Exist (fst (Get L key w)) \<and>
      NewValue (fst (Get L key w)) = Value node \<and>
      Expiration (fst (Get L key w)) = ExpireTime node \<and>
      Index (fst (Get L key w)) = 0)"
  by (simp add: Get_def Let_def PERMANENT_def split: option.split)

theorem Get_reads_only_witness:
  "fst (Get sample_lib ''/x/..//b'' sample_world) =
     \<lparr>Action = 2, Key = ''/b'', OldValue = [], NewValue = [],
      Exist = False, Expiration = 0, Index = 0\<rparr> \<and>
   snd (Get sample_lib ''/x/..//b'' sample_world) = sample_world \<and>
   map_of (Nodes sample_world) (path_Clean sample_lib ''/t/'') =
     Some \<lparr>Value = ''v'', ExpireTime = 5000000000, update = Some 1\<rparr> \<and>
   Exist (fst (Get sample_lib ''/t/'' sample_world)) \<and>
   NewValue (fst (Get sample_lib ''/t/'' sample_world)) = ''v'' \<and>
   Expiration (fst (Get sample_lib ''/t/'' sample_world)) = 5000000000"
  using Get_reads_only [of sample_lib "''/x/..//b''" sample_world]
    Get_reads_only [of sample_lib "''/t/''" sample_world]
  by (simp add: sample_defs)

text \<open>
  C10. For a key that is present, the GET response carries the node's value in both
  \<^verbatim>\<open>oldValue\<close> and \<^verbatim>\<open>newValue\<close>.
\<close>

theorem Get_old_is_new:
  "map_of (Nodes w) (path_Clean L key) = Some node \<Longrightarrow>
   OldValue (fst (Get L key w)) = Value node \<and>
   NewValue (fst (Get L key w)) = Value node \<and>
   OldValue (fst (Get L key w)) = NewValue (fst (Get L key w))"
  by (simp add: Get_def Let_def)

theorem Get_old_is_new_witness:
  "map_of (Nodes sample_world) (path_Clean sample_lib ''/a'') =
     Some \<lparr>Value = ''1'', ExpireTime = 0, update = Some 0\<rparr> \<and>
   OldValue (fst (Get sample_lib ''/a'' sample_world)) = ''1'' \<and>
   NewValue (fst (Get sample_lib ''/a'' sample_world)) = ''1''"
  using Get_old_is_new [of sample_world sample_lib "''/a''"
      "\<lparr>Value = ''1'', ExpireTime = 0, update = Some 0\<rparr>"]
  by (simp add: sample_defs)

subsection \<open>Set with an instant that has passed\<close>

text \<open>
  C1. \<^verbatim>\<open>Set\<close> with an expiration that is not the permanent instant and lies before
  the clock reading is the call \<^verbatim>\<open>Delete(key, index)\<close> on the normalised key (and on the
  key itself where \<^verbatim>\<open>path.Clean\<close> is idempotent, \<^verbatim>\<open>Delete\<close> normalising once more). If the
  key is absent the result is the encoded DELETE response with \<^verbatim>\<open>exist=false\<close> and the
  state is unchanged. If the key is present, and its node is permanent or its goroutine
  listens, the result is the encoded DELETE response with \<^verbatim>\<open>exist=true\<close> and the old
  value, and the map afterwards is the map without the key: no node is inserted. If the
  goroutine of a volatile node does not listen, the call blocks as \<^verbatim>\<open>Delete\<close> does; by
  \<open>reachable_linked\<close> this does not happen in a state reached by \<^verbatim>\<open>Set\<close>, \<^verbatim>\<open>Delete\<close> and
  timers alone.
\<close>

theorem Set_expired_is_Delete:
  assumes "expireTime \<noteq> PERMANENT" and "expireTime < now"
  shows
    "Set L key val expireTime index now w = Delete L (path_Clean L key) index now w \<and>
     (path_Clean L (path_Clean L key) = path_Clean L key \<longrightarrow>
        Set L key val expireTime index now w = Delete L key index now w) \<and>
     (map_of (Nodes w) (path_Clean L (path_Clean L key)) = None \<longrightarrow>
        Set L key val expireTime index now w =
          Some (marshal_Response L
                 \<lparr>Action = DELETE, Key = path_Clean L (path_Clean L key), OldValue = [],
                  NewValue = [], Exist = False, Expiration = PERMANENT, Index = index\<rparr>, w)) \<and>
     (\<forall>node. map_of (Nodes w) (path_Clean L (path_Clean L key)) = Some node \<and>
             (ExpireTime node = PERMANENT \<or> listening node w) \<longrightarrow>
        (\<exists>w'. Set L key val expireTime index now w =
                Some (marshal_Response L
                       \<lparr>Action = DELETE, Key = path_Clean L (path_Clean L key),
                        OldValue = Value node, NewValue = [], Exist = True,
                        Expiration = ExpireTime node, Index = index\<rparr>, w') \<and>
              map_of (Nodes w') =
                (map_of (Nodes w))(path_Clean L (path_Clean L key) := None))) \<and>
     (\<forall>node. map_of (Nodes w) (path_Clean L (path_Clean L key)) = Some node \<and>
             \<not> (ExpireTime node = PERMANENT \<or> listening node w) \<longrightarrow>
        Set L key val expireTime index now w = None)"
proof -
  let ?k = "path_Clean L key"
  have eq: "Set L key val expireTime index now w = Delete L ?k index now w"
    using assms by (rule Set_expired)
  have idem: "path_Clean L ?k = ?k \<longrightarrow>
      Set L key val expireTime index now w = Delete L key index now w"
    using eq by (simp add: Delete_def)
  have absent: "map_of (Nodes w) (path_Clean L ?k) = None \<longrightarrow>
      Set L key val expireTime index now w =
        Some (marshal_Response L
               \<lparr>Action = DELETE, Key = path_Clean L ?k, OldValue = [],
                NewValue = [], Exist = False, Expiration = PERMANENT, Index = index\<rparr>, w)"
    using eq Delete_absent[of w L ?k index now] by simp
  have present: "\<exists>w'. Set L key val expireTime index now w =
                Some (marshal_Response L
                       \<lparr>Action = DELETE, Key = path_Clean L ?k,
                        OldValue = Value node, NewValue = [], Exist = True,
                        Expiration = ExpireTime node, Index = index\<rparr>, w') \<and>
              map_of (Nodes w') = (map_of (Nodes w))(path_Clean L ?k := None)"
    if "map_of (Nodes w) (path_Clean L ?k) = Some node"
      and "ExpireTime node = PERMANENT \<or> listening node w" for node
    using Delete_present[OF that, of index now] eq
    by (auto simp: publish_eq AList.delete_conv')
  have blocked: "Set L key val expireTime index now w = None"
    if "map_of (Nodes w) (path_Clean L ?k) = Some node"
      and "\<not> (ExpireTime node = PERMANENT \<or> listening node w)" for node
    using Delete_blocked[of w L ?k node index now] that eq by simp
  from eq idem absent present blocked show ?thesis by blast
qed

theorem Set_expired_is_Delete_witness:
  "Unix 0 500 \<noteq> PERMANENT \<and> Unix 0 500 < Unix 9 0 \<and>
   Set sample_lib ''/t/'' ''w'' (Unix 0 500) 7 (Unix 9 0) sample_world =
     Delete sample_lib ''/t/'' 7 (Unix 9 0) sample_world \<and>
   Set sample_lib ''/t/'' ''w'' (Unix 0 500) 7 (Unix 9 0) sample_world =
     Some (Inr (Envelope
             \<lparr>Action = 1, Key = ''/t'', OldValue = ''v'', NewValue = [], Exist = True,
              Expiration = 5000000000, Index = 7\<rparr>),
           sample_world
             \<lparr>Nodes := [(''/a'', \<lparr>Value = ''1'', ExpireTime = 0, update = Some 0\<rparr>)],
              tasks := [],
              notified := notified sample_world @
                [\<lparr>Action = 1, Key = ''/t'', OldValue = ''v'', NewValue = [], Exist = True,
                  Expiration = 5000000000, Index = 7\<rparr>],
              messager := Some [Envelope
                \<lparr>Action = 1, Key = ''/t'', OldValue = ''v'', NewValue = [], Exist = True,
                 Expiration = 5000000000, Index = 7\<rparr>]\<rparr>) \<and>
   Set sample_lib ''/b'' ''w'' (Unix 0 500) 8 (Unix 9 0) sample_world =
     Some (Inr (Envelope
             \<lparr>Action = 1, Key = ''/b'', OldValue = [], NewValue = [], Exist = False,
              Expiration = 0, Index = 8\<rparr>), sample_world)"
proof -
  have h1: "Unix 0 500 \<noteq> PERMANENT" and h2: "Unix 0 500 < Unix 9 0"
    by (simp_all add: Unix_def PERMANENT_def)
  have d1: "Delete sample_lib (path_Clean sample_lib ''/t/'') 7 (Unix 9 0) sample_world =
     Some (Inr (Envelope
             \<lparr>Action = 1, Key = ''/t'', OldValue = ''v'', NewValue = [], Exist = True,
              Expiration = 5000000000, Index = 7\<rparr>),
           sample_world
             \<lparr>Nodes := [(''/a'', \<lparr>Value = ''1'', ExpireTime = 0, update = Some 0\<rparr>)],
              tasks := [],
              notified := notified sample_world @
                [\<lparr>Action = 1, Key = ''/t'', OldValue = ''v'', NewValue = [], Exist = True,
                  Expiration = 5000000000, Index = 7\<rparr>],
              messager := Some [Envelope
                \<lparr>Action = 1, Key = ''/t'', OldValue = ''v'', NewValue = [], Exist = True,
                 Expiration = 5000000000, Index = 7\<rparr>]\<rparr>)"
    by (simp add: sample_defs Delete_def publish_eq send_messager_def expire_update_def)
  have d2: "Delete sample_lib (path_Clean sample_lib ''/b'') 8 (Unix 9 0) sample_world =
     Some (Inr (Envelope
             \<lparr>Action = 1, Key = ''/b'', OldValue = [], NewValue = [], Exist = False,
              Expiration = 0, Index = 8\<rparr>), sample_world)"
    by (simp add: sample_defs Delete_def)
  have d3: "Delete sample_lib (path_Clean sample_lib ''/t/'') 7 (Unix 9 0) sample_world =
     Delete sample_lib ''/t/'' 7 (Unix 9 0) sample_world"
    by (simp add: Delete_def sample_lib_def go_path_Clean_def)
  from Set_expired_is_Delete [OF h1 h2, of sample_lib "''/t/''" "''w''" 7 sample_world]
  have s1: "Set sample_lib ''/t/'' ''w'' (Unix 0 500) 7 (Unix 9 0) sample_world =
      Delete sample_lib (path_Clean sample_lib ''/t/'') 7 (Unix 9 0) sample_world"
    by (rule conjunct1)
  from Set_expired_is_Delete [OF h1 h2, of sample_lib "''/b''" "''w''" 8 sample_world]
  have s2: "Set sample_lib ''/b'' ''w'' (Unix 0 500) 8 (Unix 9 0) sample_world =
      Delete sample_lib (path_Clean sample_lib ''/b'') 8 (Unix 9 0) sample_world"
    by (rule conjunct1)
  show ?thesis
    by (intro conjI h1 h2 trans [OF s1 d3] trans [OF s1 d1] trans [OF s2 d2])
qed

subsection \<open>Encoding errors\<close>

text \<open>
  C8. When the response of a \<^verbatim>\<open>Set\<close> or a \<^verbatim>\<open>Delete\<close> cannot be encoded, the call
  returns the encoder's error and the map keeps the change: after \<^verbatim>\<open>Set\<close> the key holds
  the new node (inserted for an absent key, replaced for a present one), after \<^verbatim>\<open>Delete\<close>
  the key is gone. The calls return whenever the key is absent, its node is permanent or
  its goroutine listens, as in every state reached by \<^verbatim>\<open>Set\<close>, \<^verbatim>\<open>Delete\<close> and timers
  alone (\<open>reachable_returns\<close>).
\<close>

theorem encoding_error_not_rolled_back:
  "(\<not> (expireTime \<noteq> PERMANENT \<and> expireTime < now) \<and>
    map_of (Nodes w) (path_Clean L key) = None \<and>
    marshal_Response L
      \<lparr>Action = SET, Key = path_Clean L key, OldValue = [], NewValue = val,
       Exist = False, Expiration = expireTime, Index = index\<rparr> = Inl e \<longrightarrow>
    (\<exists>w'. Set L key val expireTime index now w = Some (Inl e, w') \<and>
          map_of (Nodes w') =
            (map_of (Nodes w))(path_Clean L key \<mapsto>
              \<lparr>Value = val, ExpireTime = expireTime, update = Some (chans w)\<rparr>))) \<and>
   (\<forall>node.
      \<not> (expireTime \<noteq> PERMANENT \<and> expireTime < now) \<and>
      map_of (Nodes w) (path_Clean L key) = Some node \<and>
      (ExpireTime node = PERMANENT \<or> listening node w) \<and>
      marshal_Response L
        \<lparr>Action = SET, Key = path_Clean L key, OldValue = Value node, NewValue = val,
         Exist = True, Expiration = expireTime, Index = index\<rparr> = Inl e \<longrightarrow>
      (\<exists>w' upd. Set L key val expireTime index now w = Some (Inl e, w') \<and>
          map_of (Nodes w') =
            (map_of (Nodes w))(path_Clean L key \<mapsto>
              \<lparr>Value = val, ExpireTime = expireTime, update = upd\<rparr>))) \<and>
   (\<forall>node.
      map_of (Nodes w) (path_Clean L key) = Some node \<and>
      (ExpireTime node = PERMANENT \<or> listening node w) \<and>
      marshal_Response L
        \<lparr>Action = DELETE, Key = path_Clean L key, OldValue = Value node, NewValue = [],
         Exist = True, Expiration = ExpireTime node, Index = index\<rparr> = Inl e \<longrightarrow>
      (\<exists>w'. Delete L key index now w = Some (Inl e, w') \<and>
          map_of (Nodes w') = (map_of (Nodes w))(path_Clean L key := None)))"
proof (intro conjI allI impI)
  assume a: "\<not> (expireTime \<noteq> PERMANENT \<and> expireTime < now) \<and>
    map_of (Nodes w) (path_Clean L key) = None \<and>
    marshal_Response L
      \<lparr>Action = SET, Key = path_Clean L key, OldValue = [], NewValue = val,
       Exist = False, Expiration = expireTime, Index = index\<rparr> = Inl e"
  then show "\<exists>w'. Set L key val expireTime index now w = Some (Inl e, w') \<and>
          map_of (Nodes w') =
            (map_of (Nodes w))(path_Clean L key \<mapsto>
              \<lparr>Value = val, ExpireTime = expireTime, update = Some (chans w)\<rparr>)"
    using Set_absent[of expireTime now w L key val index]
    by (auto simp: publish_eq AList.update_conv')
next
  fix node
  assume a: "\<not> (expireTime \<noteq> PERMANENT \<and> expireTime < now) \<and>
      map_of (Nodes w) (path_Clean L key) = Some node \<and>
      (ExpireTime node = PERMANENT \<or> listening node w) \<and>
      marshal_Response L
        \<lparr>Action = SET, Key = path_Clean L key, OldValue = Value node, NewValue = val,
         Exist = True, Expiration = expireTime, Index = index\<rparr> = Inl e"
  then show "\<exists>w' upd. Set L key val expireTime index now w = Some (Inl e, w') \<and>
          map_of (Nodes w') =
            (map_of (Nodes w))(path_Clean L key \<mapsto>
              \<lparr>Value = val, ExpireTime = expireTime, update = upd\<rparr>)"
    using Set_present[of expireTime now w L key node val index]
    by (auto simp: publish_eq AList.update_conv')
next
  fix node
  assume a: "map_of (Nodes w) (path_Clean L key) = Some node \<and>
      (ExpireTime node = PERMANENT \<or> listening node w) \<and>
      marshal_Response L
        \<lparr>Action = DELETE, Key = path_Clean L key, OldValue = Value node, NewValue = [],
         Exist = True, Expiration = ExpireTime node, Index = index\<rparr> = Inl e"
  then show "\<exists>w'. Delete L key index now w = Some (Inl e, w') \<and>
          map_of (Nodes w') = (map_of (Nodes w))(path_Clean L key := None)"
    using Delete_present[of w L key node index now]
    by (auto simp: publish_eq AList.delete_conv')
qed

theorem encoding_error_not_rolled_back_witness:
  "\<not> (Unix 253402300800 0 \<noteq> PERMANENT \<and> Unix 253402300800 0 < Unix 9 0) \<and>
   map_of (Nodes sample_world) (path_Clean sample_lib ''/far'') = None \<and>
   marshal_Response sample_lib
      \<lparr>Action = SET, Key = path_Clean sample_lib ''/far'', OldValue = [], NewValue = ''x'',
       Exist = False, Expiration = Unix 253402300800 0, Index = 9\<rparr> = Inl SerializationError \<and>
   (\<exists>w'. Set sample_lib ''/far'' ''x'' (Unix 253402300800 0) 9 (Unix 9 0) sample_world =
           Some (Inl SerializationError, w') \<and>
         map_of (Nodes w') =
           (map_of (Nodes sample_world))(path_Clean sample_lib ''/far'' \<mapsto>
              \<lparr>Value = ''x'', ExpireTime = Unix 253402300800 0,
               update = Some (chans sample_world)\<rparr>))"
proof -
  have h: "\<not> (Unix 253402300800 0 \<noteq> PERMANENT \<and> Unix 253402300800 0 < Unix 9 0) \<and>
   map_of (Nodes sample_world) (path_Clean sample_lib ''/far'') = None \<and>
   marshal_Response sample_lib
      \<lparr>Action = SET, Key = path_Clean sample_lib ''/far'', OldValue = [], NewValue = ''x'',
       Exist = False, Expiration = Unix 253402300800 0, Index = 9\<rparr> = Inl SerializationError"
    by (simp add: sample_defs)
  from encoding_error_not_rolled_back
    [of "Unix 253402300800 0" "Unix 9 0" sample_world sample_lib "''/far''" "''x''" 9
      SerializationError, THEN conjunct1, rule_format, OF h] h
  show ?thesis by blast
qed

subsection \<open>The expiration field of a response\<close>

text \<open>
  C5, as the code has it. The expiration of a SET response is the expiration of the node
  after the call, and that of a GET response is the node's expiration, the permanent
  instant for an absent key. A DELETE response for an absent key carries the permanent
  instant. A DELETE response for a present key, from \<^verbatim>\<open>Delete\<close> or from the timer of
  \<^verbatim>\<open>expire\<close>, carries the expiration the node had before it was removed
  (\<^verbatim>\<open>node.ExpireTime\<close>); it is the permanent instant only if the node was permanent.
\<close>

theorem response_expiration:
  "(\<not> (expireTime \<noteq> PERMANENT \<and> expireTime < now) \<and>
    (map_of (Nodes w) (path_Clean L key) = None \<or>
     (\<exists>node. map_of (Nodes w) (path_Clean L key) = Some node \<and>
             (ExpireTime node = PERMANENT \<or> listening node w))) \<longrightarrow>
    (\<exists>w'. Set L key val expireTime index now w =
            Some (marshal_Response L (last (notified w')), w') \<and>
          Action (last (notified w')) = SET \<and>
          Expiration (last (notified w')) = expireTime \<and>
          map_option ExpireTime (map_of (Nodes w') (path_Clean L key)) = Some expireTime)) \<and>
   Expiration (fst (Get L key w)) =
     (case map_of (Nodes w) (path_Clean L key) of
        None \<Rightarrow> PERMANENT
      | Some node \<Rightarrow> ExpireTime node) \<and>
   (map_of (Nodes w) (path_Clean L key) = None \<longrightarrow>
      Delete L key index now w =
        Some (marshal_Response L
               \<lparr>Action = DELETE, Key = path_Clean L key, OldValue = [], NewValue = [],
                Exist = False, Expiration = PERMANENT, Index = index\<rparr>, w)) \<and>
   (\<forall>node. map_of (Nodes w) (path_Clean L key) = Some node \<and>
           (ExpireTime node = PERMANENT \<or> listening node w) \<longrightarrow>
      (\<exists>w'. Delete L key index now w =
              Some (marshal_Response L (last (notified w')), w') \<and>
            Action (last (notified w')) = DELETE \<and>
            Expiration (last (notified w')) = ExpireTime node \<and>
            map_of (Nodes w') (path_Clean L key) = None)) \<and>
   (\<forall>node. map_of (Nodes w) (tkey tk) = Some node \<longrightarrow>
      Action (last (notified (expire_timeout L tk w))) = DELETE \<and>
      Expiration (last (notified (expire_timeout L tk w))) = ExpireTime node \<and>
      map_of (Nodes (expire_timeout L tk w)) (tkey tk) = None)"
proof (intro conjI allI impI)
  assume a: "\<not> (expireTime \<noteq> PERMANENT \<and> expireTime < now) \<and>
    (map_of (Nodes w) (path_Clean L key) = None \<or>
     (\<exists>node. map_of (Nodes w) (path_Clean L key) = Some node \<and>
             (ExpireTime node = PERMANENT \<or> listening node w)))"
  then have live: "\<not> (expireTime \<noteq> PERMANENT \<and> expireTime < now)" by blast
  from a consider (absent) "map_of (Nodes w) (path_Clean L key) = None"
    | (present) node where "map_of (Nodes w) (path_Clean L key) = Some node"
        "ExpireTime node = PERMANENT \<or> listening node w"
    by auto
  then show "\<exists>w'. Set L key val expireTime index now w =
            Some (marshal_Response L (last (notified w')), w') \<and>
          Action (last (notified w')) = SET \<and>
          Expiration (last (notified w')) = expireTime \<and>
          map_option ExpireTime (map_of (Nodes w') (path_Clean L key)) = Some expireTime"
  proof cases
    case absent
    from Set_absent_effect[OF live absent refl, of val index]
    show ?thesis by auto
  next
    case present
    from Set_present_effect[OF live present refl, of val index]
    show ?thesis by auto
  qed
next
  show "Expiration (fst (Get L key w)) =
     (case map_of (Nodes w) (path_Clean L key) of
        None \<Rightarrow> PERMANENT
      | Some node \<Rightarrow> ExpireTime node)"
    by (simp add: Get_def Let_def PERMANENT_def split: option.split)
next
  assume "map_of (Nodes w) (path_Clean L key) = None"
  then show "Delete L key index now w =
        Some (marshal_Response L
               \<lparr>Action = DELETE, Key = path_Clean L key, OldValue = [], NewValue = [],
                Exist = False, Expiration = PERMANENT, Index = index\<rparr>, w)"
    by (rule Delete_absent)
next
  fix node
  assume "map_of (Nodes w) (path_Clean L key) = Some node \<and>
           (ExpireTime node = PERMANENT \<or> listening node w)"
  then have p: "map_of (Nodes w) (path_Clean L key) = Some node"
    and q: "ExpireTime node = PERMANENT \<or> listening node w" by blast+
  from Delete_present_effect[OF p q refl, of index now]
  show "\<exists>w'. Delete L key index now w =
              Some (marshal_Response L (last (notified w')), w') \<and>
            Action (last (notified w')) = DELETE \<and>
            Expiration (last (notified w')) = ExpireTime node \<and>
            map_of (Nodes w') (path_Clean L key) = None"
    by auto
next
  fix node
  assume p: "map_of (Nodes w) (tkey tk) = Some node"
  from expire_timeout_present_effect[OF p refl, of L]
  show "Action (last (notified (expire_timeout L tk w))) = DELETE"
    and "Expiration (last (notified (expire_timeout L tk w))) = ExpireTime node"
    and "map_of (Nodes (expire_timeout L tk w)) (tkey tk) = None"
    by simp_all
qed

theorem response_expiration_witness:
  "\<not> (Unix 8 0 \<noteq> PERMANENT \<and> Unix 8 0 < Unix 2 0) \<and>
   map_of (Nodes sample_world) (path_Clean sample_lib ''/t'') =
     Some \<lparr>Value = ''v'', ExpireTime = Unix 5 0, update = Some 1\<rparr> \<and>
   listening \<lparr>Value = ''v'', ExpireTime = Unix 5 0, update = Some 1\<rparr> sample_world \<and>
   (\<exists>w'. Set sample_lib ''/t'' ''w'' (Unix 8 0) 4 (Unix 2 0) sample_world =
            Some (marshal_Response sample_lib (last (notified w')), w') \<and>
          Action (last (notified w')) = SET \<and>
          Expiration (last (notified w')) = Unix 8 0 \<and>
          map_option ExpireTime (map_of (Nodes w') (path_Clean sample_lib ''/t'')) =
            Some (Unix 8 0)) \<and>
   (\<exists>w'. Delete sample_lib ''/t'' 4 (Unix 2 0) sample_world =
            Some (marshal_Response sample_lib (last (notified w')), w') \<and>
          Action (last (notified w')) = DELETE \<and>
          Expiration (last (notified w')) = Unix 5 0 \<and>
          map_of (Nodes w') (path_Clean sample_lib ''/t'') = None)"
proof -
  let ?n = "\<lparr>Value = ''v'', ExpireTime = Unix 5 0, update = Some 1\<rparr>"
  have h1: "\<not> (Unix 8 0 \<noteq> PERMANENT \<and> Unix 8 0 < Unix 2 0)"
    by (simp add: Unix_def)
  have h2: "map_of (Nodes sample_world) (path_Clean sample_lib ''/t'') = Some ?n"
    by (simp add: sample_defs)
  have h3: "listening ?n sample_world"
    by (simp add: listening_def sample_world_def)
  note T = response_expiration
    [where expireTime = "Unix 8 0" and now = "Unix 2 0" and w = sample_world
       and L = sample_lib and key = "''/t''" and val = "''w''" and index = 4]
  from T h1 h2 h3 show ?thesis by (simp del: map_option_eq_Some)
qed

text \<open>
  The claim as stated fails: deleting the volatile key \<^verbatim>\<open>/t\<close>, by \<^verbatim>\<open>Delete\<close> or by its
  timer, yields a DELETE response whose expiration is second 5, not the permanent
  instant, although the key is absent afterwards.
\<close>

theorem response_expiration_counterexample:
  "Delete sample_lib ''/t'' 3 (Unix 2 0) sample_world =
     Some (Inr (Envelope
             \<lparr>Action = DELETE, Key = ''/t'', OldValue = ''v'', NewValue = [], Exist = True,
              Expiration = Unix 5 0, Index = 3\<rparr>),
           sample_world
             \<lparr>Nodes := [(''/a'', \<lparr>Value = ''1'', ExpireTime = PERMANENT, update = Some 0\<rparr>)],
              tasks := [],
              notified := notified sample_world @
                [\<lparr>Action = DELETE, Key = ''/t'', OldValue = ''v'', NewValue = [], Exist = True,
                  Expiration = Unix 5 0, Index = 3\<rparr>],
              messager := Some [Envelope
                \<lparr>Action = DELETE, Key = ''/t'', OldValue = ''v'', NewValue = [], Exist = True,
                 Expiration = Unix 5 0, Index = 3\<rparr>]\<rparr>) \<and>
   Expiration
     (last (notified
       (expire_timeout sample_lib \<lparr>tkey = ''/t'', tupdate = 1, duration = 4000000000\<rparr>
          sample_world))) = Unix 5 0 \<and>
   Unix 5 0 \<noteq> PERMANENT"
  by (simp add: sample_defs Delete_def expire_timeout_def publish_eq send_messager_def
      expire_update_def)

subsection \<open>Notification and forwarding\<close>

text \<open>
  C6, as the code has it. A \<^verbatim>\<open>Set\<close> that does not turn into a \<^verbatim>\<open>Delete\<close>, a \<^verbatim>\<open>Delete\<close>
  of a present key and a timer that finds its key each call \<^verbatim>\<open>notify\<close> once with the
  response; the encoded text is sent to the messager once if one is set and the encoding
  succeeded, and nothing is sent otherwise. A \<^verbatim>\<open>Delete\<close> of an absent key returns its
  response with the state unchanged: \<^verbatim>\<open>notify\<close> is not called and nothing is forwarded.
  A timer whose key is gone does neither.
\<close>

theorem notify_once:
  "(\<not> (expireTime \<noteq> PERMANENT \<and> expireTime < now) \<and>
    (map_of (Nodes w) (path_Clean L key) = None \<or>
     (\<exists>node. map_of (Nodes w) (path_Clean L key) = Some node \<and>
             (ExpireTime node = PERMANENT \<or> listening node w))) \<longrightarrow>
    (\<exists>w' r. Set L key val expireTime index now w = Some (marshal_Response L r, w') \<and>
          Action r = SET \<and> Key r = path_Clean L key \<and> Index r = index \<and>
          notified w' = notified w @ [r] \<and>
          messager w' = send_messager (marshal_Response L r) (messager w))) \<and>
   (\<forall>node. map_of (Nodes w) (path_Clean L key) = Some node \<and>
           (ExpireTime node = PERMANENT \<or> listening node w) \<longrightarrow>
      (\<exists>w' r. Delete L key index now w = Some (marshal_Response L r, w') \<and>
            Action r = DELETE \<and> Key r = path_Clean L key \<and> Index r = index \<and>
            notified w' = notified w @ [r] \<and>
            messager w' = send_messager (marshal_Response L r) (messager w))) \<and>
   (map_of (Nodes w) (path_Clean L key) = None \<longrightarrow>
      (\<exists>r. Delete L key index now w = Some (r, w))) \<and>
   (\<forall>node. map_of (Nodes w) (tkey tk) = Some node \<longrightarrow>
      (\<exists>r. Action r = DELETE \<and> Key r = tkey tk \<and> Index r = 0 \<and>
           notified (expire_timeout L tk w) = notified w @ [r] \<and>
           messager (expire_timeout L tk w) =
             send_messager (marshal_Response L r) (messager w))) \<and>
   (map_of (Nodes w) (tkey tk) = None \<longrightarrow>
      notified (expire_timeout L tk w) = notified w \<and>
      messager (expire_timeout L tk w) = messager w) \<and>
   send_messager res None = None \<and>
   send_messager (Inr msg) (Some q) = Some (q @ [msg]) \<and>
   send_messager (Inl e) (Some q) = Some q"
proof (intro conjI allI impI)
  assume a: "\<not> (expireTime \<noteq> PERMANENT \<and> expireTime < now) \<and>
    (map_of (Nodes w) (path_Clean L key) = None \<or>
     (\<exists>node. map_of (Nodes w) (path_Clean L key) = Some node \<and>
             (ExpireTime node = PERMANENT \<or> listening node w)))"
  then have live: "\<not> (expireTime \<noteq> PERMANENT \<and> expireTime < now)" by blast
  from a consider (absent) "map_of (Nodes w) (path_Clean L key) = None"
    | (present) node where "map_of (Nodes w) (path_Clean L key) = Some node"
        "ExpireTime node = PERMANENT \<or> listening node w"
    by auto
  then show "\<exists>w' r. Set L key val expireTime index now w = Some (marshal_Response L r, w') \<and>
          Action r = SET \<and> Key r = path_Clean L key \<and> Index r = index \<and>
          notified w' = notified w @ [r] \<and>
          messager w' = send_messager (marshal_Response L r) (messager w)"
  proof cases
    case absent
    from Set_absent_effect[OF live absent refl, of val index]
    show ?thesis by force
  next
    case present
    from Set_present_effect[OF live present refl, of val index]
    show ?thesis by force
  qed
next
  fix node
  assume "map_of (Nodes w) (path_Clean L key) = Some node \<and>
           (ExpireTime node = PERMANENT \<or> listening node w)"
  then have p: "map_of (Nodes w) (path_Clean L key) = Some node"
    and q: "ExpireTime node = PERMANENT \<or> listening node w" by blast+
  from Delete_present_effect[OF p q refl, of index now]
  show "\<exists>w' r. Delete L key index now w = Some (marshal_Response L r, w') \<and>
            Action r = DELETE \<and> Key r = path_Clean L key \<and> Index r = index \<and>
            notified w' = notified w @ [r] \<and>
            messager w' = send_messager (marshal_Response L r) (messager w)"
    by force
next
  assume "map_of (Nodes w) (path_Clean L key) = None"
  then show "\<exists>r. Delete L key index now w = Some (r, w)"
    by (simp add: Delete_absent)
next
  fix node
  assume p: "map_of (Nodes w) (tkey tk) = Some node"
  from expire_timeout_present_effect[OF p refl, of L]
  show "\<exists>r. Action r = DELETE \<and> Key r = tkey tk \<and> Index r = 0 \<and>
           notified (expire_timeout L tk w) = notified w @ [r] \<and>
           messager (expire_timeout L tk w) =
             send_messager (marshal_Response L r) (messager w)"
    by force
next
  assume p: "map_of (Nodes w) (tkey tk) = None"
  then show "notified (expire_timeout L tk w) = notified w"
    and "messager (expire_timeout L tk w) = messager w"
    by (simp_all add: expire_timeout_absent)
qed (simp_all add: send_messager_def)

theorem notify_once_witness:
  "\<not> (PERMANENT \<noteq> PERMANENT \<and> PERMANENT < Unix 2 0) \<and>
   map_of (Nodes sample_world) (path_Clean sample_lib ''/new'') = None \<and>
   (\<exists>w' r. Set sample_lib ''/new'' ''n'' PERMANENT 4 (Unix 2 0) sample_world =
              Some (marshal_Response sample_lib r, w') \<and>
          Action r = SET \<and> Key r = path_Clean sample_lib ''/new'' \<and> Index r = 4 \<and>
          notified w' = notified sample_world @ [r] \<and>
          messager w' = send_messager (marshal_Response sample_lib r) (messager sample_world))"
proof -
  have h1: "\<not> (PERMANENT \<noteq> PERMANENT \<and> PERMANENT < Unix 2 0)"
    by simp
  have h2: "map_of (Nodes sample_world) (path_Clean sample_lib ''/new'') = None"
    by (simp add: sample_defs)
  note T = notify_once
    [where expireTime = PERMANENT and now = "Unix 2 0" and w = sample_world
       and L = sample_lib and key = "''/new''" and val = "''n''" and index = 4,
     THEN conjunct1, rule_format]
  from T h1 h2 show ?thesis by blast
qed

text \<open>
  The claim as stated fails for the absent key: \<^verbatim>\<open>Delete("/b", 3)\<close> returns the
  \<^verbatim>\<open>exist=false\<close> response and the state is the one before the call, so \<^verbatim>\<open>notify\<close> has
  not been called and the messager, though set, has received nothing.
\<close>

theorem notify_once_counterexample:
  "Delete sample_lib ''/b'' 3 (Unix 2 0) sample_world =
     Some (Inr (Envelope
             \<lparr>Action = DELETE, Key = ''/b'', OldValue = [], NewValue = [], Exist = False,
              Expiration = PERMANENT, Index = 3\<rparr>), sample_world) \<and>
   messager sample_world = Some []"
  by (simp add: sample_defs Delete_def)

subsection \<open>Recovery\<close>







text \<open>
  C4, as the code has it. Let \<open>n\<close> be the node the snapshot restores under \<open>k\<close>. Its
  channel is nil after decoding. \<^verbatim>\<open>clean\<close> deletes it when it is volatile with less than
  a second to live and keeps it otherwise, a permanent node included. For a volatile
  node that is kept, a new goroutine runs on a channel that did not exist before, with
  the countdown \<^verbatim>\<open>ExpireTime - now\<close>; but the node in the map is left as decoded, with
  the nil channel, because line 287 assigns the channel to the loop's copy. Nothing
  listens on the node's channel, and a \<^verbatim>\<open>Delete\<close> of the key blocks forever.
\<close>

theorem Recovery_leaves_handle_nil:
  assumes "distinct (map fst (Nodes w))"
    and "unmarshal_Store L state = (es, err)"
    and "map_of (rev (map decoded es)) k = Some n"
  shows
    "update n = None \<and>
     (dropped now n \<longrightarrow> map_of (Nodes (snd (Recovery L state now w))) k = None) \<and>
     (\<not> dropped now n \<longrightarrow> map_of (Nodes (snd (Recovery L state now w))) k = Some n) \<and>
     (\<not> Equal (ExpireTime n) PERMANENT \<and> \<not> dropped now n \<longrightarrow>
        (\<exists>c. chans w \<le> c \<and>
             go_expire k c (ExpireTime n) now \<in> set (tasks (snd (Recovery L state now w)))) \<and>
        \<not> listening n (snd (Recovery L state now w)) \<and>
        (\<forall>key index now'. path_Clean L key = k \<longrightarrow>
           Delete L key index now' (snd (Recovery L state now w)) = None))"
proof -
  let ?w1 = "w\<lparr>Nodes :=
        foldl (\<lambda>al e. AList.update (fst (decoded e)) (snd (decoded e)) al) (Nodes w) es\<rparr>"
  have R: "snd (Recovery L state now w) = clean now ?w1"
    using assms(2) by (simp add: Recovery_eq)
  have u: "update n = None"
    using assms(3) by (rule update_decoded)
  have m: "map_of (Nodes (snd (Recovery L state now w))) k =
      (if dropped now n then None else Some n)"
    using assms(3) by (simp add: map_of_Recovery[OF assms(1,2)] map_add_def)
  have nl: "\<not> listening n w'" for w' :: "'a world"
    using u by (simp add: listening_def)
  have spawn: "\<exists>c. chans w \<le> c \<and>
      go_expire k c (ExpireTime n) now \<in> set (tasks (snd (Recovery L state now w)))"
    if v: "\<not> Equal (ExpireTime n) PERMANENT" and d: "\<not> dropped now n"
  proof -
    have "map_of (Nodes ?w1) k = Some n"
      using assms(3) by (simp add: map_of_foldl_update map_add_def)
    then have "(k, n) \<in> set (Nodes ?w1)"
      by (rule map_of_SomeD)
    moreover from v d have "Second \<le> Sub (ExpireTime n) now"
      by (simp add: dropped_def)
    ultimately show ?thesis
      using clean_loop_spawns[of k n "Nodes ?w1" now ?w1] v
      by (simp add: R clean_def)
  qed
  have block: "Delete L key index now' (snd (Recovery L state now w)) = None"
    if v: "\<not> Equal (ExpireTime n) PERMANENT" and d: "\<not> dropped now n"
      and k: "path_Clean L key = k" for key index now'
    using Delete_blocked[of "snd (Recovery L state now w)" L key n index now'] m v d k nl
    by (simp add: Equal_def)
  from u m nl spawn block show ?thesis by simp
qed

theorem Recovery_leaves_handle_nil_witness:
  "distinct (map fst (Nodes (createStore :: doc world))) \<and>
   unmarshal_Store sample_lib (Snapshot [(''/t'', ''v'', Unix 20 0)]) =
     ([(''/t'', ''v'', Unix 20 0)], None) \<and>
   map_of (rev (map decoded [(''/t'', ''v'', Unix 20 0)])) ''/t'' =
     Some \<lparr>Value = ''v'', ExpireTime = Unix 20 0, update = None\<rparr> \<and>
   \<not> Equal (Unix 20 0) PERMANENT \<and>
   \<not> dropped (Unix 2 0) \<lparr>Value = ''v'', ExpireTime = Unix 20 0, update = None\<rparr> \<and>
   Recovery sample_lib (Snapshot [(''/t'', ''v'', Unix 20 0)]) (Unix 2 0) createStore =
     (None,
      \<lparr>Nodes = [(''/t'', \<lparr>Value = ''v'', ExpireTime = Unix 20 0, update = None\<rparr>)],
       messager = None, notified = [],
       tasks = [\<lparr>tkey = ''/t'', tupdate = 0, duration = 18000000000\<rparr>],
       chans = 1\<rparr>) \<and>
   path_Clean sample_lib ''/t'' = ''/t'' \<and>
   Delete sample_lib ''/t'' 1 (Unix 3 0)
     (snd (Recovery sample_lib (Snapshot [(''/t'', ''v'', Unix 20 0)]) (Unix 2 0) createStore)) =
     None"
proof -
  let ?es = "[(''/t'', ''v'', Unix 20 0)]"
  let ?n = "\<lparr>Value = ''v'', ExpireTime = Unix 20 0, update = None\<rparr>"
  have h1: "distinct (map fst (Nodes (createStore :: doc world)))"
    by (simp add: createStore_def)
  have h2: "unmarshal_Store sample_lib (Snapshot ?es) = (?es, None)"
    by (simp add: sample_lib_def)
  have h3: "map_of (rev (map decoded ?es)) ''/t'' = Some ?n"
    by (simp add: decoded_def)
  have h4: "\<not> Equal (Unix 20 0) PERMANENT" and h5: "\<not> dropped (Unix 2 0) ?n"
    by (simp_all add: sample_defs dropped_def)
  have h6: "path_Clean sample_lib ''/t'' = ''/t''"
    by (simp add: sample_lib_def go_path_Clean_def)
  have r: "Recovery sample_lib (Snapshot ?es) (Unix 2 0) createStore =
     (None,
      \<lparr>Nodes = [(''/t'', ?n)], messager = None, notified = [],
       tasks = [\<lparr>tkey = ''/t'', tupdate = 0, duration = 18000000000\<rparr>],
       chans = 1\<rparr>)"
    by (simp add: sample_defs run_defs)
  from Recovery_leaves_handle_nil [OF h1 h2 h3, of "Unix 2 0"] h4 h5 h6
  have "Delete sample_lib ''/t'' 1 (Unix 3 0)
     (snd (Recovery sample_lib (Snapshot ?es) (Unix 2 0) createStore)) = None"
    by simp
  with h1 h2 h3 h4 h5 h6 r show ?thesis by blast
qed

end
